theory Spec2Isabelle
  imports
    Complex_Main
    "HOL-Library.Sublist"
    "HOL-Library.Char_ord"
    "HOL-Library.List_Lexorder"
    "HOL-Library.Product_Lexorder"
begin

chapter \<open>OctoPrint server bootstrap and lifecycle orchestration\<close>

text \<open>
  A shallow embedding of the parts of \<^verbatim>\<open>src/octoprint/server/__init__.py\<close> that
  the specification talks about: the lifecycle manager, the assembly of the route and
  body-size tables from plugin hooks, the shutdown handler, the intermediary server and
  the port handover in \<^verbatim>\<open>Server.run\<close>, and the preemptive cache replay.

  Python calls have effects and may raise. A call is modelled by the list of effects it
  performed, in order, together with its outcome: \<open>Inl x\<close> when the exception \<open>x\<close>
  left the call, \<open>Inr ()\<close> when it returned.
\<close>

section \<open>Effects and exceptions\<close>

type_synonym ('a, 'x) comp = "'a list \<times> ('x + unit)"

definition done_run :: "('a, 'x) comp" where
  "done_run = ([], Inr ())"

definition emit :: "'a \<Rightarrow> ('a, 'x) comp" where
  "emit a = ([a], Inr ())"

definition raise_run :: "'x \<Rightarrow> ('a, 'x) comp" where
  "raise_run x = ([], Inl x)"

text \<open>Statement sequencing: the second statement runs only when the first returned.\<close>

definition then_run :: "('a, 'x) comp \<Rightarrow> ('a, 'x) comp \<Rightarrow> ('a, 'x) comp" where
  "then_run r k = (case snd r of Inl x \<Rightarrow> r | Inr u \<Rightarrow> (fst r @ fst k, snd k))"

section \<open>LifecycleManager\<close>

text \<open>
  Callables are compared by identity in the source (\<^verbatim>\<open>callback in ...\<close>,
  \<^verbatim>\<open>.remove(callback)\<close>), so a callable is named by a \<open>callee\<close>: the plugin
  manager's own \<^verbatim>\<open>on_plugin_<event>\<close> attribute, or a callback handed to
  \<^verbatim>\<open>add_callback\<close>. What a callable does when it is called with
  \<^verbatim>\<open>(name, plugin)\<close> is given by a behaviour function: it returns or raises.
  Entering a callable is the observable effect.
\<close>

datatype callee = Upstream string | Registered nat

type_synonym ('p, 'x) behaviour = "callee \<Rightarrow> string \<Rightarrow> 'p \<Rightarrow> 'x + unit"

definition call :: "('p, 'x) behaviour \<Rightarrow> callee \<Rightarrow> string \<Rightarrow> 'p \<Rightarrow> (callee, 'x) comp" where
  "call beh c name plugin = ([c], beh c name plugin)"

text \<open>
  \<^verbatim>\<open>self._plugin_lifecycle_callbacks = defaultdict(list)\<close>: a missing event reads as
  the empty list.
\<close>

record lifecycle_manager =
  plugin_lifecycle_callbacks :: "string \<Rightarrow> nat list"

text \<open>
  \<^verbatim>\<open>
  def on_plugin_event(self, event, name, plugin):
      for lifecycle_callback in self._plugin_lifecycle_callbacks[event]:
          lifecycle_callback(name, plugin)
  \<close>
  There is no \<^verbatim>\<open>try\<close> around the call: an exception leaves the loop.
\<close>

fun call_each :: "('p, 'x) behaviour \<Rightarrow> nat list \<Rightarrow> string \<Rightarrow> 'p \<Rightarrow> (callee, 'x) comp" where
  "call_each beh [] name plugin = done_run"
| "call_each beh (c # cs) name plugin =
     then_run (call beh (Registered c) name plugin) (call_each beh cs name plugin)"

definition on_plugin_event ::
  "('p, 'x) behaviour \<Rightarrow> lifecycle_manager \<Rightarrow> string \<Rightarrow> string \<Rightarrow> 'p \<Rightarrow> (callee, 'x) comp" where
  "on_plugin_event beh self event name plugin =
     call_each beh (plugin_lifecycle_callbacks self event) name plugin"

text \<open>
  \<^verbatim>\<open>
  def add_callback(self, events, callback):
      if isinstance(events, str):
          events = [events]
      for event in events:
          self._plugin_lifecycle_callbacks[event].append(callback)
  \<close>
\<close>

datatype events_arg = OneEvent string | Events "string list"

fun events_list :: "events_arg \<Rightarrow> string list" where
  "events_list (OneEvent e) = [e]"
| "events_list (Events es) = es"

fun append_callback :: "(string \<Rightarrow> nat list) \<Rightarrow> string list \<Rightarrow> nat \<Rightarrow> (string \<Rightarrow> nat list)" where
  "append_callback cbs [] callback = cbs"
| "append_callback cbs (event # events) callback =
     append_callback (cbs(event := cbs event @ [callback])) events callback"

definition add_callback :: "lifecycle_manager \<Rightarrow> events_arg \<Rightarrow> nat \<Rightarrow> lifecycle_manager" where
  "add_callback self events callback =
     self\<lparr>plugin_lifecycle_callbacks :=
            append_callback (plugin_lifecycle_callbacks self) (events_list events) callback\<rparr>"

text \<open>
  \<^verbatim>\<open>
  def remove_callback(self, callback, events=None):
      if events is None:
          for event in self._plugin_lifecycle_callbacks:
              if callback in self._plugin_lifecycle_callbacks[event]:
                  self._plugin_lifecycle_callbacks[event].remove(callback)
      else:
          ...
          for event in events:
              if callback in self._plugin_lifecycle_callbacks[event]:
                  self._plugin_lifecycle_callbacks[event].remove(callback)
  \<close>
  \<^verbatim>\<open>list.remove\<close> deletes the first occurrence, which is \<^const>\<open>remove1\<close>; on a
  list without the callback \<^const>\<open>remove1\<close> changes nothing, as the guard does.
\<close>

fun drop_callback :: "(string \<Rightarrow> nat list) \<Rightarrow> string list \<Rightarrow> nat \<Rightarrow> (string \<Rightarrow> nat list)" where
  "drop_callback cbs [] callback = cbs"
| "drop_callback cbs (event # events) callback =
     drop_callback (cbs(event := remove1 callback (cbs event))) events callback"

definition remove_callback ::
  "lifecycle_manager \<Rightarrow> nat \<Rightarrow> events_arg option \<Rightarrow> lifecycle_manager" where
  "remove_callback self callback events =
     (case events of
        None \<Rightarrow> self\<lparr>plugin_lifecycle_callbacks :=
                        (\<lambda>event. remove1 callback (plugin_lifecycle_callbacks self event))\<rparr>
      | Some evs \<Rightarrow> self\<lparr>plugin_lifecycle_callbacks :=
                        drop_callback (plugin_lifecycle_callbacks self) (events_list evs) callback\<rparr>)"

text \<open>
  The plugin manager (a collaborator outside this file) carries one attribute
  \<^verbatim>\<open>on_plugin_<event>\<close> per event. An attribute holds a callable or something that is
  not callable (\<open>None\<close>). A callable stored there is a closure: the handler built by
  \<^verbatim>\<open>wrap_plugin_event\<close> reads the lifecycle manager when it is called, so a handler
  takes the manager as it is at call time.
\<close>

type_synonym ('p, 'x) handler =
  "('p, 'x) behaviour \<Rightarrow> lifecycle_manager \<Rightarrow> string \<Rightarrow> 'p \<Rightarrow> (callee, 'x) comp"

record ('p, 'x) plugin_manager =
  on_plugin :: "string \<Rightarrow> ('p, 'x) handler option"

text \<open>The handler a fresh plugin manager has for an event: an opaque upstream callable.\<close>

definition upstream_handler :: "string \<Rightarrow> ('p, 'x) handler" where
  "upstream_handler event = (\<lambda>beh self name plugin. call beh (Upstream event) name plugin)"

text \<open>
  \<^verbatim>\<open>
  def wrap_plugin_event(lifecycle_event, new_handler):
      orig_handler = getattr(self._plugin_manager, "on_plugin_" + lifecycle_event)
      def handler(*args, **kwargs):
          if callable(orig_handler):
              orig_handler(*args, **kwargs)
          if callable(new_handler):
              new_handler(*args, **kwargs)
      return handler

  def on_plugin_event_factory(lifecycle_event):
      def on_plugin_event(name, plugin):
          self.on_plugin_event(lifecycle_event, name, plugin)
      return on_plugin_event
  \<close>
\<close>

definition call_if_callable ::
  "('p, 'x) handler option \<Rightarrow> ('p, 'x) handler" where
  "call_if_callable h = (\<lambda>beh self name plugin.
     case h of None \<Rightarrow> done_run | Some f \<Rightarrow> f beh self name plugin)"

definition wrap_plugin_event ::
  "('p, 'x) plugin_manager \<Rightarrow> string \<Rightarrow> ('p, 'x) handler option \<Rightarrow> ('p, 'x) handler" where
  "wrap_plugin_event pm lifecycle_event new_handler =
     (let orig_handler = on_plugin pm lifecycle_event
      in (\<lambda>beh self name plugin.
            then_run (call_if_callable orig_handler beh self name plugin)
                     (call_if_callable new_handler beh self name plugin)))"

definition on_plugin_event_factory :: "string \<Rightarrow> ('p, 'x) handler" where
  "on_plugin_event_factory lifecycle_event =
     (\<lambda>beh self name plugin. on_plugin_event beh self lifecycle_event name plugin)"

text \<open>
  \<^verbatim>\<open>
  def __init__(self, plugin_manager):
      self._plugin_manager = plugin_manager
      self._plugin_lifecycle_callbacks = defaultdict(list)
      ...
      for event in ("loaded", "unloaded", "enabled", "disabled"):
          wrap_plugin_event(event, on_plugin_event_factory(event))
  \<close>
  The loop builds the four wrapping handlers and drops them: the value of
  \<^verbatim>\<open>wrap_plugin_event(...)\<close> is not assigned to anything. The constructor therefore
  returns the plugin manager as it received it, next to the new lifecycle manager.
\<close>

definition lifecycle_events :: "string list" where
  "lifecycle_events = [''loaded'', ''unloaded'', ''enabled'', ''disabled'']"

definition LifecycleManager_init ::
  "('p, 'x) plugin_manager \<Rightarrow> ('p, 'x) plugin_manager \<times> lifecycle_manager" where
  "LifecycleManager_init pm =
     (let built = map (\<lambda>event. wrap_plugin_event pm event (Some (on_plugin_event_factory event)))
                      lifecycle_events
      in (pm, \<lparr>plugin_lifecycle_callbacks = (\<lambda>event. [])\<rparr>))"

text \<open>
  The plugin subsystem signals an event by calling the plugin manager's attribute for it,
  \<^verbatim>\<open>self.on_plugin_<event>(name, plugin)\<close>.
\<close>

definition signal_plugin_event ::
  "('p, 'x) behaviour \<Rightarrow> ('p, 'x) plugin_manager \<Rightarrow> lifecycle_manager \<Rightarrow> string \<Rightarrow> string \<Rightarrow> 'p
     \<Rightarrow> (callee, 'x) comp" where
  "signal_plugin_event beh pm self event name plugin =
     call_if_callable (on_plugin pm event) beh self name plugin"

section \<open>Route table and body-size table\<close>

text \<open>
  What a plugin hook returns is an arbitrary Python value, and the source inspects it with
  \<^verbatim>\<open>isinstance\<close> and \<^verbatim>\<open>len\<close>. \<open>PObj\<close> stands for any other object (a
  handler class, a validator): it is compared by identity and has no string methods.
\<close>

datatype pyval =
    PNone
  | PBool bool
  | PInt int
  | PStr string
  | PTuple "pyval list"
  | PList "pyval list"
  | PDict "(string \<times> pyval) list"
  | PObj nat

text \<open>\<^verbatim>\<open>isinstance(entry, tuple) and len(entry) == 3\<close>\<close>

fun tuple3 :: "pyval \<Rightarrow> (pyval \<times> pyval \<times> pyval) option" where
  "tuple3 (PTuple [a, b, c]) = Some (a, b, c)"
| "tuple3 v = None"

fun str_of :: "pyval \<Rightarrow> string option" where
  "str_of (PStr s) = Some s"
| "str_of v = None"

fun is_dict :: "pyval \<Rightarrow> bool" where
  "is_dict (PDict d) = True"
| "is_dict v = False"

text \<open>\<^verbatim>\<open>isinstance(x, int)\<close> holds for booleans too: \<^verbatim>\<open>bool\<close> is a subclass of \<^verbatim>\<open>int\<close>.\<close>

fun is_int :: "pyval \<Rightarrow> bool" where
  "is_int (PInt i) = True"
| "is_int (PBool b) = True"
| "is_int v = False"

text \<open>\<^verbatim>\<open>isinstance(result, (list, tuple))\<close>, with the items to iterate over.\<close>

fun list_or_tuple :: "pyval \<Rightarrow> pyval list option" where
  "list_or_tuple (PList xs) = Some xs"
| "list_or_tuple (PTuple xs) = Some xs"
| "list_or_tuple v = None"

text \<open>
  \<^verbatim>\<open>
  route = r"/plugin/{name}/{route}".format(
      name=name,
      route=route if not route.startswith("/") else route[1:],
  )
  \<close>
\<close>

definition plugin_route :: "string \<Rightarrow> string \<Rightarrow> string" where
  "plugin_route name route =
     ''/plugin/'' @ name @ ''/'' @ (if \<not> prefix ''/'' route then route else drop 1 route)"

type_synonym route = "string \<times> pyval \<times> pyval"

datatype assembly_log =
    RouteHookFailed string
  | AddingRoute string pyval pyval
  | BodysizeHookFailed string
  | AddingBodySize pyval string pyval

text \<open>
  One entry of a route hook's result: the three \<^verbatim>\<open>continue\<close> checks, then the
  route as it is appended. There is no look at the routes already in the table.
\<close>

definition route_of_entry :: "string \<Rightarrow> pyval \<Rightarrow> route option" where
  "route_of_entry name entry =
     (case tuple3 entry of
        None \<Rightarrow> None
      | Some (e0, handler, kwargs) \<Rightarrow>
          (case str_of e0 of
             None \<Rightarrow> None
           | Some route \<Rightarrow>
               if \<not> is_dict kwargs then None
               else Some (plugin_route name route, handler, kwargs)))"

fun add_route_entries ::
  "string \<Rightarrow> pyval list \<Rightarrow> route list \<times> assembly_log list \<Rightarrow> route list \<times> assembly_log list" where
  "add_route_entries name [] acc = acc"
| "add_route_entries name (entry # rest) (server_routes, lg) =
     (case route_of_entry name entry of
        None \<Rightarrow> add_route_entries name rest (server_routes, lg)
      | Some (route, handler, kwargs) \<Rightarrow>
          add_route_entries name rest
            (server_routes @ [(route, handler, kwargs)], lg @ [AddingRoute route handler kwargs]))"

text \<open>
  A hook is called with a copy of the table built so far; it returns a value or raises.
  \<^verbatim>\<open>get_hooks(...).items()\<close> is the list of (plugin name, hook) in dictionary order.
\<close>

type_synonym 'x route_hook = "route list \<Rightarrow> 'x + pyval"

fun add_plugin_routes ::
  "(string \<times> 'x route_hook) list \<Rightarrow> route list \<times> assembly_log list
     \<Rightarrow> route list \<times> assembly_log list" where
  "add_plugin_routes [] acc = acc"
| "add_plugin_routes ((name, hook) # hooks) (server_routes, lg) =
     (case hook server_routes of
        Inl x \<Rightarrow> add_plugin_routes hooks (server_routes, lg @ [RouteHookFailed name])
      | Inr result \<Rightarrow>
          (case list_or_tuple result of
             None \<Rightarrow> add_plugin_routes hooks (server_routes, lg)
           | Some entries \<Rightarrow>
               add_plugin_routes hooks (add_route_entries name entries (server_routes, lg))))"

text \<open>
  The patterns of the default routes, as the source lists them after
  \<^verbatim>\<open>self._router.urls\<close>, and the pattern of the fallback route appended last.
\<close>

definition default_patterns :: "string list" where
  "default_patterns =
     [''/downloads/timelapse/(.*)'',
      ''/downloads/timelapses'',
      ''/downloads/files/local/(.*)'',
      ''/downloads/files/local'',
      ''/downloads/logs/([^/]*)'',
      ''/downloads/logs'',
      ''/downloads/systeminfo.zip'',
      ''/downloads/camera/current'',
      ''/static/webassets/(.*)'',
      ''/online.txt'',
      ''/online.gif'',
      ''/api/logs'',
      ''/api/logs/(.*)'']"

definition fallback_pattern :: string where
  "fallback_pattern = ''.*''"

text \<open>
  \<^verbatim>\<open>_get_server_handlers\<close>. The SockJS router's urls, and the handler and keyword
  arguments of each default route and of the fallback, are built by code outside this
  file: they are parameters (\<open>detail\<close> gives handler and arguments for a pattern).
\<close>

definition get_server_handlers ::
  "route list \<Rightarrow> (string \<Rightarrow> pyval \<times> pyval) \<Rightarrow> (string \<times> 'x route_hook) list
     \<Rightarrow> route list \<times> assembly_log list" where
  "get_server_handlers router_urls detail hooks =
     (let server_routes = router_urls @ map (\<lambda>p. (p, detail p)) default_patterns;
          (server_routes, lg) = add_plugin_routes hooks (server_routes, [])
      in (server_routes @ [(fallback_pattern, detail fallback_pattern)], lg))"

text \<open>
  \<^verbatim>\<open>_get_max_body_sizes\<close>. An entry is (method, route, size). The checks are on
  \<^verbatim>\<open>entry[0]\<close> and \<^verbatim>\<open>entry[2]\<close> only; \<^verbatim>\<open>route.startswith\<close> on a route that is
  not a string raises, outside the \<^verbatim>\<open>try\<close>, and leaves the function.
  \<^verbatim>\<open>
  if not isinstance(entry, tuple) or not len(entry) == 3: continue
  if entry[0] not in util.tornado.UploadStorageFallbackHandler.BODY_METHODS: continue
  if not isinstance(entry[2], int): continue
  method, route, size = entry
  route = r"/plugin/{name}/{route}".format(...)
  max_body_sizes.append((method, route, size))
  \<close>
\<close>

datatype table_error = AttributeError

type_synonym body_size = "pyval \<times> string \<times> pyval"

definition size_of_entry :: "pyval list \<Rightarrow> string \<Rightarrow> pyval \<Rightarrow> table_error + body_size option" where
  "size_of_entry BODY_METHODS name entry =
     (case tuple3 entry of
        None \<Rightarrow> Inr None
      | Some (method, e1, sz) \<Rightarrow>
          if method \<notin> set BODY_METHODS then Inr None
          else if \<not> is_int sz then Inr None
          else (case str_of e1 of
                  None \<Rightarrow> Inl AttributeError
                | Some route \<Rightarrow> Inr (Some (method, plugin_route name route, sz))))"

fun add_size_entries ::
  "pyval list \<Rightarrow> string \<Rightarrow> pyval list \<Rightarrow> body_size list \<times> assembly_log list
     \<Rightarrow> table_error + body_size list \<times> assembly_log list" where
  "add_size_entries BODY_METHODS name [] acc = Inr acc"
| "add_size_entries BODY_METHODS name (entry # rest) (max_body_sizes, lg) =
     (case size_of_entry BODY_METHODS name entry of
        Inl e \<Rightarrow> Inl e
      | Inr None \<Rightarrow> add_size_entries BODY_METHODS name rest (max_body_sizes, lg)
      | Inr (Some (method, route, sz)) \<Rightarrow>
          add_size_entries BODY_METHODS name rest
            (max_body_sizes @ [(method, route, sz)], lg @ [AddingBodySize method route sz]))"

type_synonym 'x bodysize_hook = "body_size list \<Rightarrow> 'x + pyval"

fun add_plugin_sizes ::
  "pyval list \<Rightarrow> (string \<times> 'x bodysize_hook) list \<Rightarrow> body_size list \<times> assembly_log list
     \<Rightarrow> table_error + body_size list \<times> assembly_log list" where
  "add_plugin_sizes BODY_METHODS [] acc = Inr acc"
| "add_plugin_sizes BODY_METHODS ((name, hook) # hooks) (max_body_sizes, lg) =
     (case hook max_body_sizes of
        Inl x \<Rightarrow> add_plugin_sizes BODY_METHODS hooks (max_body_sizes, lg @ [BodysizeHookFailed name])
      | Inr result \<Rightarrow>
          (case list_or_tuple result of
             None \<Rightarrow> add_plugin_sizes BODY_METHODS hooks (max_body_sizes, lg)
           | Some entries \<Rightarrow>
               (case add_size_entries BODY_METHODS name entries (max_body_sizes, lg) of
                  Inl e \<Rightarrow> Inl e
                | Inr acc \<Rightarrow> add_plugin_sizes BODY_METHODS hooks acc)))"

definition builtin_body_sizes :: "int \<Rightarrow> body_size list" where
  "builtin_body_sizes uploads_maxSize =
     [(PStr ''POST'', ''/api/files/([^/]*)'', PInt uploads_maxSize),
      (PStr ''POST'', ''/api/languages'', PInt (5 * 1024 * 1024))]"

definition get_max_body_sizes ::
  "pyval list \<Rightarrow> int \<Rightarrow> (string \<times> 'x bodysize_hook) list
     \<Rightarrow> table_error + body_size list \<times> assembly_log list" where
  "get_max_body_sizes BODY_METHODS uploads_maxSize hooks =
     add_plugin_sizes BODY_METHODS hooks (builtin_body_sizes uploads_maxSize, [])"

section \<open>How a route pattern is matched\<close>

text \<open>
  The route table goes to the web framework (Tornado, outside this repository), which
  reads every pattern as a regular expression, anchors it at the end of the path and
  hands a request to the first route of the table whose expression matches the request
  path from its start. The source inserts the route a plugin supplies into the pattern
  as it is, without escaping. The fragment of the expression syntax modelled here is
  what that needs: literal characters, \<^verbatim>\<open>.\<close> (any character but a newline), a
  postfix \<^verbatim>\<open>*\<close>, and \<^verbatim>\<open>|\<close>, which binds weakest. A pattern outside the fragment
  (groups, character classes, escapes) is not parsed: \<open>None\<close>. Matching is by
  derivatives of the expression.
\<close>

datatype rx = Never | Eps | Lit char | Dot | Cat rx rx | Alt rx rx | Star rx

fun nullable :: "rx \<Rightarrow> bool" where
  "nullable Never = False"
| "nullable Eps = True"
| "nullable (Lit c) = False"
| "nullable Dot = False"
| "nullable (Cat r s) = (nullable r \<and> nullable s)"
| "nullable (Alt r s) = (nullable r \<or> nullable s)"
| "nullable (Star r) = True"

fun deriv :: "char \<Rightarrow> rx \<Rightarrow> rx" where
  "deriv c Never = Never"
| "deriv c Eps = Never"
| "deriv c (Lit d) = (if c = d then Eps else Never)"
| "deriv c Dot = (if c = CHR 0x0A then Never else Eps)"
| "deriv c (Cat r s) =
     (if nullable r then Alt (Cat (deriv c r) s) (deriv c s) else Cat (deriv c r) s)"
| "deriv c (Alt r s) = Alt (deriv c r) (deriv c s)"
| "deriv c (Star r) = Cat (deriv c r) (Star r)"

definition rx_matches :: "rx \<Rightarrow> string \<Rightarrow> bool" where
  "rx_matches r path = nullable (foldl (\<lambda>r c. deriv c r) r path)"

definition special :: "char \<Rightarrow> bool" where
  "special c = (c \<in> set ''()[]{}+?^$*|'' \<or> c = CHR 0x5C)"

definition atom :: "char \<Rightarrow> rx" where
  "atom c = (if c = CHR ''.'' then Dot else Lit c)"

fun parse_seq :: "string \<Rightarrow> rx option" where
  "parse_seq [] = Some Eps"
| "parse_seq [c] = (if special c then None else Some (atom c))"
| "parse_seq (c # d # cs) =
     (if special c then None
      else if d = CHR ''*'' then map_option (Cat (Star (atom c))) (parse_seq cs)
      else map_option (Cat (atom c)) (parse_seq (d # cs)))"

fun split_bar :: "string \<Rightarrow> string list" where
  "split_bar [] = [[]]"
| "split_bar (c # cs) =
     (if c = CHR ''|'' then [] # split_bar cs
      else (case split_bar cs of [] \<Rightarrow> [[c]] | x # xs \<Rightarrow> (c # x) # xs))"

definition parse_pattern :: "string \<Rightarrow> rx option" where
  "parse_pattern pattern =
     (case those (map parse_seq (split_bar pattern)) of
        None \<Rightarrow> None
      | Some rs \<Rightarrow> Some (foldr Alt rs Never))"

definition url_matches :: "string \<Rightarrow> string \<Rightarrow> bool option" where
  "url_matches pattern path = map_option (\<lambda>r. rx_matches r path) (parse_pattern pattern)"

section \<open>Server: intermediary server, port handover, shutdown\<close>

text \<open>
  The effects of \<^verbatim>\<open>Server\<close> that the specification talks about. Log lines carry the
  fixed part of their message. \<open>Initialization\<close> stands for everything
  \<^verbatim>\<open>run\<close> does between starting and stopping the intermediary server (managers,
  plugins, templates, assets, the Tornado application): none of it touches the listening
  port.
\<close>

datatype event = STARTUP | SHUTDOWN

datatype effect =
    LogDebug string
  | LogInfo string
  | LogWarning string
  | LogException string
  | CreateIntermediary
  | SetCloseExec bool
  | SetCloseExecRaised
  | ServerBind
  | ServerBindRaised
  | ServerActivate
  | ServerActivateRaised
  | ServerClose
  | ThreadStart
  | ServerShutdown
  | Initialization
  | Listen
  | ListenRaised
  | Fire event
  | ObserverStop
  | ObserverJoin
  | CallPlugins string
  | EventManagerJoin real
  | DaemonTerminated
  | AddCallbackFromSignal
  | IOLoopStop

datatype exn = RuntimeError | UnicodeDecodeError | CannotStartServerException | OtherError string

text \<open>
  The attributes of \<^verbatim>\<open>Server\<close> that these methods read and write. Host and port
  may be \<open>None\<close> until \<^verbatim>\<open>run\<close> fills them in. An attribute that refers to a
  collaborator object is \<open>None\<close> or \<open>Some ()\<close>.
\<close>

record server =
  host :: "string option"
  port :: "int option"
  v6_only :: bool
  intermediary_server :: "unit option"
  watched_observer :: "unit option"
  octoprint_daemon :: "unit option"

text \<open>
  What the world outside this file does in one run. The settings give the configured host
  and port, if any. \<^verbatim>\<open>set_close_exec\<close> lives in
  \<^verbatim>\<open>octoprint.util.platform\<close>: it returns, having written the close-on-exec flag
  itself (\<open>True\<close>) or having done nothing (\<open>False\<close>: ``if possible'', ``we can only
  do that if fcntl is available or we are on Windows''), or it raises. Whether the
  descriptor carries the flag is not decided by this call alone: see
  \<open>close_exec_step\<close> below. Binding and activating the intermediary server, the
  initialization and the full server's \<^verbatim>\<open>listen\<close> return or raise.
\<close>

datatype close_exec_outcome = CloseExecReturned bool | CloseExecRaised

datatype bind_outcome = BindOk | BindRaised exn | ActivateRaised exn

record environment =
  HAS_V6 :: bool
  win32 :: bool
  settings_host :: "string option"
  settings_port :: "int option"
  close_exec :: close_exec_outcome
  bind :: bind_outcome
  initialization :: "exn option"
  listen :: "exn option"

text \<open>
  \<^verbatim>\<open>
  self._intermediary_server = ServerClass((host, port), ..., bind_and_activate=False)
  try:
      set_close_exec(self._intermediary_server.fileno())
  except Exception:
      self._logger.exception("Error while attempting to set_close_exec on intermediary server socket")
  try:
      self._intermediary_server.server_bind()
      self._intermediary_server.server_activate()
  except Exception as exc:
      self._intermediary_server.server_close()
      if isinstance(exc, UnicodeDecodeError) and sys.platform == "win32":
          raise CannotStartServerException(...) from exc
      else:
          raise
  thread = threading.Thread(target=serve); thread.daemon = True; thread.start()
  self._logger.info("Intermediary server started")
  \<close>
  Creating the server object (a socket that is not yet bound) is taken to succeed; the
  choice between the IPv4 and the IPv6 server classes does not change the order of the
  calls and is left out.
\<close>

definition reraise :: "environment \<Rightarrow> exn \<Rightarrow> exn" where
  "reraise env exc = (if exc = UnicodeDecodeError \<and> win32 env then CannotStartServerException else exc)"

definition try_set_close_exec :: "environment \<Rightarrow> (effect, exn) comp" where
  "try_set_close_exec env =
     (case close_exec env of
        CloseExecReturned flag \<Rightarrow> emit (SetCloseExec flag)
      | CloseExecRaised \<Rightarrow>
          ([SetCloseExecRaised,
            LogException ''Error while attempting to set_close_exec on intermediary server socket''],
           Inr ()))"

definition bind_and_activate :: "environment \<Rightarrow> (effect, exn) comp" where
  "bind_and_activate env =
     (case bind env of
        BindOk \<Rightarrow> ([ServerBind, ServerActivate], Inr ())
      | BindRaised exc \<Rightarrow> ([ServerBindRaised, ServerClose], Inl (reraise env exc))
      | ActivateRaised exc \<Rightarrow> ([ServerBind, ServerActivateRaised, ServerClose], Inl (reraise env exc)))"

definition start_intermediary_server :: "environment \<Rightarrow> server \<Rightarrow> server \<times> (effect, exn) comp" where
  "start_intermediary_server env self =
     (self\<lparr>intermediary_server := Some ()\<rparr>,
      then_run (emit (LogDebug ''Starting intermediary server on ...''))
     (then_run (emit CreateIntermediary)
     (then_run (try_set_close_exec env)
     (then_run (bind_and_activate env)
               ([ThreadStart, LogInfo ''Intermediary server started''], Inr ())))))"

text \<open>
  \<^verbatim>\<open>
  def _stop_intermediary_server(self):
      if self._intermediary_server is None:
          return
      self._logger.info("Shutting down intermediary server...")
      self._intermediary_server.shutdown()
      self._intermediary_server.server_close()
      self._logger.info("Intermediary server shut down")
  \<close>
\<close>

definition stop_intermediary_server :: "server \<Rightarrow> (effect, exn) comp" where
  "stop_intermediary_server self =
     (if intermediary_server self = None then done_run
      else ([LogInfo ''Shutting down intermediary server...'',
             ServerShutdown,
             ServerClose,
             LogInfo ''Intermediary server shut down''], Inr ()))"

text \<open>\<^verbatim>\<open>_initialize_and_bind_server\<close>: \<^verbatim>\<open>server.listen(self._port, address=address)\<close>.\<close>

definition initialize_and_bind_server :: "environment \<Rightarrow> (effect, exn) comp" where
  "initialize_and_bind_server env =
     (case listen env of None \<Rightarrow> emit Listen | Some exc \<Rightarrow> ([ListenRaised], Inl exc))"

definition heavy_initialization :: "environment \<Rightarrow> (effect, exn) comp" where
  "heavy_initialization env =
     (case initialization env of None \<Rightarrow> emit Initialization | Some exc \<Rightarrow> raise_run exc)"

text \<open>
  \<^verbatim>\<open>
  def _ensure_host(self):
      if self._host is None:
          host = self._settings.get(["server", "host"])
          if host is None:
              if octoprint.util.net.HAS_V6:
                  host = "::"
              else:
                  host = "0.0.0.0"
          self._host = host
      if ":" in self._host and not octoprint.util.net.HAS_V6:
          raise RuntimeError("IPv6 host address ... configured but system doesn't support IPv6")

  def _ensure_port(self):
      if self._port is None:
          self._port = self._settings.getInt(["server", "port"])
          if self._port is None:
              self._port = 5000
  \<close>
\<close>

definition ensured_host :: "environment \<Rightarrow> server \<Rightarrow> string" where
  "ensured_host env self =
     (case host self of
        Some h \<Rightarrow> h
      | None \<Rightarrow>
          (case settings_host env of
             Some h \<Rightarrow> h
           | None \<Rightarrow> if HAS_V6 env then ''::'' else ''0.0.0.0''))"

definition ensure_host :: "environment \<Rightarrow> server \<Rightarrow> server \<times> (effect, exn) comp" where
  "ensure_host env self =
     (self\<lparr>host := Some (ensured_host env self)\<rparr>,
      if CHR '':'' \<in> set (ensured_host env self) \<and> \<not> HAS_V6 env then raise_run RuntimeError
      else done_run)"

definition ensure_port :: "environment \<Rightarrow> server \<Rightarrow> server" where
  "ensure_port env self =
     (case port self of
        Some p \<Rightarrow> self
      | None \<Rightarrow>
          self\<lparr>port := Some (case settings_port env of Some p \<Rightarrow> p | None \<Rightarrow> 5000)\<rparr>)"

text \<open>
  \<^verbatim>\<open>Server.run\<close>, up to the point where the full server is bound and the startup
  event is fired:
  \<^verbatim>\<open>
  if self._v6_only and not octoprint.util.net.HAS_V6:
      raise RuntimeError("IPv6 only mode configured but system doesn't support IPv6")
  self._ensure_host()
  self._ensure_port()
  ...
  self._start_intermediary_server()
  ...
  self._stop_intermediary_server()
  self._server = self._initialize_and_bind_server(max_body_sizes=max_body_sizes)
  eventManager.fire(events.Events.STARTUP)
  \<close>
\<close>

definition Server_run :: "environment \<Rightarrow> server \<Rightarrow> server \<times> (effect, exn) comp" where
  "Server_run env self =
     (if v6_only self \<and> \<not> HAS_V6 env then (self, raise_run RuntimeError)
      else
        (let (self_h, host_checked) = ensure_host env self;
             self_p = ensure_port env self_h;
             (self1, started) = start_intermediary_server env self_p
         in case snd host_checked of
              Inl exc \<Rightarrow> (self_h, host_checked)
            | Inr u \<Rightarrow>
               (self1,
                then_run started
               (then_run (heavy_initialization env)
               (then_run (stop_intermediary_server self1)
               (then_run (initialize_and_bind_server env)
                         (emit (Fire STARTUP))))))))"

text \<open>
  Who holds the listening port after each effect: binding the intermediary server's
  socket takes it, closing that socket gives it up, the full server's
  \<^verbatim>\<open>listen\<close> takes it. \<open>port_history\<close> lists the holders before the first effect
  and after each effect of a trace.
\<close>

datatype owner = IntermediaryServer | FullServer

fun port_step :: "effect \<Rightarrow> owner set \<Rightarrow> owner set" where
  "port_step ServerBind s = insert IntermediaryServer s"
| "port_step ServerClose s = s - {IntermediaryServer}"
| "port_step Listen s = insert FullServer s"
| "port_step e s = s"

fun port_history :: "owner set \<Rightarrow> effect list \<Rightarrow> owner set list" where
  "port_history s [] = [s]"
| "port_history s (e # es) = s # port_history (port_step e s) es"

definition port_owners :: "effect list \<Rightarrow> owner set" where
  "port_owners tr = last (port_history {} tr)"




text \<open>
  \<^verbatim>\<open>
  def on_shutdown():
      self._logger.info("Shutting down...")
      if self._watched_observer:
          self._watched_observer.stop()
          self._watched_observer.join()
      eventManager.fire(events.Events.SHUTDOWN)
      self._call_shutdown_plugins()
      # wait for shutdown event to be processed, but maximally for 15s
      event_timeout = 15.0
      if eventManager.join(timeout=event_timeout):
          self._logger.warning("Event loop was still busy processing after {}s, shutting down anyhow".format(event_timeout))
      if self._octoprint_daemon is not None:
          self._logger.info("Cleaning up daemon pidfile")
          self._octoprint_daemon.terminated()
      self._logger.info("Goodbye!")
  \<close>
  \<open>still_busy\<close> is what \<^verbatim>\<open>eventManager.join\<close> returned. The handler assigns no
  attribute, so the server it returns is the server it was given. The calls into
  collaborators are taken to return.
\<close>

definition event_timeout :: real where
  "event_timeout = 15"

definition call_shutdown_plugins :: "effect list" where
  "call_shutdown_plugins = [LogInfo ''Calling on_shutdown on plugins'', CallPlugins ''on_shutdown'']"

definition on_shutdown :: "bool \<Rightarrow> server \<Rightarrow> server \<times> effect list" where
  "on_shutdown still_busy self =
     (self,
      [LogInfo ''Shutting down...'']
      @ (if watched_observer self \<noteq> None then [ObserverStop, ObserverJoin] else [])
      @ [Fire SHUTDOWN]
      @ call_shutdown_plugins
      @ [EventManagerJoin event_timeout]
      @ (if still_busy
         then [LogWarning ''Event loop was still busy processing after 15.0s, shutting down anyhow'']
         else [])
      @ (if octoprint_daemon self \<noteq> None
         then [LogInfo ''Cleaning up daemon pidfile'', DaemonTerminated]
         else [])
      @ [LogInfo ''Goodbye!''])"

text \<open>The shutdown handler invoked twice in sequence, on the server the first call left.\<close>

definition on_shutdown_twice :: "bool \<Rightarrow> bool \<Rightarrow> server \<Rightarrow> server \<times> effect list" where
  "on_shutdown_twice busy1 busy2 self =
     (let (self1, tr1) = on_shutdown busy1 self;
          (self2, tr2) = on_shutdown busy2 self1
      in (self2, tr1 @ tr2))"

text \<open>
  \<^verbatim>\<open>
  def sigterm_handler(*args, **kwargs):
      def shutdown_tornado():
          self._logger.debug("Shutting down tornado's IOLoop...")
          IOLoop.current().stop()
      self._logger.debug("SIGTERM received...")
      IOLoop.current().add_callback_from_signal(shutdown_tornado)
  \<close>
  Stopping the event loop is the SIGTERM handler's work, not the shutdown handler's.
\<close>

definition shutdown_tornado :: "effect list" where
  "shutdown_tornado = [LogDebug ''Shutting down tornado's IOLoop...'', IOLoopStop]"

definition sigterm_handler :: "effect list" where
  "sigterm_handler = [LogDebug ''SIGTERM received...'', AddCallbackFromSignal]"

section \<open>Preemptive cache replay\<close>

text \<open>
  A recorded request is a dictionary. The keys the replay reads are
  \<^verbatim>\<open>_timestamp\<close>, \<^verbatim>\<open>base_url\<close>, \<^verbatim>\<open>_count\<close> and \<^verbatim>\<open>plugin\<close>; each may be
  missing. The remaining keys are the arguments of the request to issue. Timestamps are
  numbers of seconds, hit counts are integers and the other values are strings, as the
  recorder writes them; time is taken as exact (no rounding of the subtraction).
\<close>

record entry =
  e_timestamp :: "real option"
  e_base_url :: "string option"
  e_count :: "int option"
  e_plugin :: "string option"
  e_rest :: "(string \<times> string) list"

type_synonym cache = "(string \<times> entry list) list"

text \<open>
  \<^verbatim>\<open>
  preemptive_cache_timeout = settings().getInt(["server", "preemptiveCache", "until"])
  cutoff_timestamp = time.time() - preemptive_cache_timeout * 24 * 60 * 60

  def filter_current_entries(entry):
      return "_timestamp" in entry and entry["_timestamp"] > cutoff_timestamp

  def filter_http_entries(entry):
      return ("base_url" in entry and entry["base_url"]
              and (entry["base_url"].startswith("http://")
                   or entry["base_url"].startswith("https://")))

  def filter_entries(entry):
      filters = (filter_current_entries, filter_http_entries)
      return all(f(entry) for f in filters)
  \<close>
\<close>

definition cutoff_timestamp :: "real \<Rightarrow> int \<Rightarrow> real" where
  "cutoff_timestamp now preemptive_cache_timeout =
     now - real_of_int (preemptive_cache_timeout * 24 * 60 * 60)"

definition filter_current_entries :: "real \<Rightarrow> entry \<Rightarrow> bool" where
  "filter_current_entries cutoff entry =
     (case e_timestamp entry of None \<Rightarrow> False | Some t \<Rightarrow> t > cutoff)"

definition filter_http_entries :: "entry \<Rightarrow> bool" where
  "filter_http_entries entry =
     (case e_base_url entry of
        None \<Rightarrow> False
      | Some url \<Rightarrow> url \<noteq> [] \<and> (prefix ''http://'' url \<or> prefix ''https://'' url))"

definition filter_entries :: "real \<Rightarrow> entry \<Rightarrow> bool" where
  "filter_entries cutoff entry =
     list_all (\<lambda>f. f entry) [filter_current_entries cutoff, filter_http_entries]"

text \<open>
  Modelled from the spec: \<^verbatim>\<open>PreemptiveCache.clean_all_data\<close> is defined outside this
  file. The specification says that entries are pruned before they are consumed, and the
  source hands it a function of a root and its entries: the model applies that function
  to the entries of every root and returns the pruned dictionary.
\<close>

definition clean_all_data :: "(string \<Rightarrow> entry list \<Rightarrow> entry list) \<Rightarrow> cache \<Rightarrow> cache" where
  "clean_all_data cleanup all_data = map (\<lambda>(root, entries). (root, cleanup root entries)) all_data"

text \<open>
  \<^verbatim>\<open>
  for route in sorted(cache_data.keys(), key=lambda x: (x.count("/"), x)):
      entries = sorted(cache_data[route], key=lambda x: x.get("_count", 0), reverse=True)
      for kwargs in entries:
          ...
  \<close>
  \<^verbatim>\<open>sorted\<close> is stable; with \<^verbatim>\<open>reverse=True\<close> it sorts the reversed list and
  reverses the result, so that equal keys keep their order. Strings compare as lists of
  characters, lexicographically.
\<close>

definition route_key :: "string \<Rightarrow> nat \<times> string" where
  "route_key x = (count_list x (CHR ''/''), x)"

definition sorted_routes :: "cache \<Rightarrow> string list" where
  "sorted_routes cache_data = sort_key route_key (map fst cache_data)"

definition hit_count :: "entry \<Rightarrow> int" where
  "hit_count x = (case e_count x of None \<Rightarrow> 0 | Some c \<Rightarrow> c)"

definition sorted_entries :: "entry list \<Rightarrow> entry list" where
  "sorted_entries entries = rev (sort_key hit_count (rev entries))"

definition lookup_route :: "cache \<Rightarrow> string \<Rightarrow> entry list" where
  "lookup_route cache_data route = (case map_of cache_data route of None \<Rightarrow> [] | Some es \<Rightarrow> es)"

text \<open>
  The body of the inner loop. An entry bound to a plugin (a non-empty
  \<^verbatim>\<open>plugin\<close> value) is checked first; each failing check logs and skips the entry.
  Then the request is issued; an exception of the dispatch is logged and the loop goes on.
  What the plugin manager answers and whether the dispatch raises are given by the
  environment.
\<close>

datatype plugin_check = NotInstalled | NotUiPlugin | CachingDisabled | CheckRaised | CachingEnabled

datatype replay_effect =
    Skipped string entry plugin_check
  | Caching string entry
  | CachingDone string entry
  | CachingError string entry

record replay_environment =
  check_plugin :: "string \<Rightarrow> plugin_check"
  dispatch_raises :: "string \<Rightarrow> entry \<Rightarrow> bool"

definition issue_request :: "replay_environment \<Rightarrow> string \<Rightarrow> entry \<Rightarrow> replay_effect list" where
  "issue_request env route kwargs =
     (if dispatch_raises env route kwargs
      then [Caching route kwargs, CachingError route kwargs]
      else [Caching route kwargs, CachingDone route kwargs])"

definition replay_entry :: "replay_environment \<Rightarrow> string \<Rightarrow> entry \<Rightarrow> replay_effect list" where
  "replay_entry env route kwargs =
     (case e_plugin kwargs of
        None \<Rightarrow> issue_request env route kwargs
      | Some plugin_name \<Rightarrow>
          if plugin_name = [] then issue_request env route kwargs
          else (case check_plugin env plugin_name of
                  CachingEnabled \<Rightarrow> issue_request env route kwargs
                | failed \<Rightarrow> [Skipped route kwargs failed]))"

definition execute_caching :: "replay_environment \<Rightarrow> cache \<Rightarrow> replay_effect list" where
  "execute_caching env cache_data =
     concat (map (\<lambda>route.
                    concat (map (replay_entry env route)
                                (sorted_entries (lookup_route cache_data route))))
                 (sorted_routes cache_data))"

text \<open>
  \<^verbatim>\<open>
  cache_data = preemptive_cache.clean_all_data(
      lambda root, entries: list(filter(filter_entries, entries)))
  if not cache_data:
      return
  \<close>
  and then \<^verbatim>\<open>execute_caching\<close> on a worker thread.
\<close>

definition execute_preemptive_flask_caching ::
  "real \<Rightarrow> int \<Rightarrow> replay_environment \<Rightarrow> cache \<Rightarrow> replay_effect list" where
  "execute_preemptive_flask_caching now preemptive_cache_timeout env all_data =
     (let cutoff = cutoff_timestamp now preemptive_cache_timeout;
          cache_data = clean_all_data (\<lambda>root entries. filter (filter_entries cutoff) entries) all_data
      in if cache_data = [] then [] else execute_caching env cache_data)"

text \<open>
  The entries the loop reaches, in order (each is either skipped or issued), and the
  entries whose request is issued.
\<close>

fun visit_of :: "replay_effect \<Rightarrow> (string \<times> entry) option" where
  "visit_of (Skipped route kwargs c) = Some (route, kwargs)"
| "visit_of (Caching route kwargs) = Some (route, kwargs)"
| "visit_of (CachingDone route kwargs) = None"
| "visit_of (CachingError route kwargs) = None"

definition visits :: "replay_effect list \<Rightarrow> (string \<times> entry) list" where
  "visits tr = List.map_filter visit_of tr"

fun issue_of :: "replay_effect \<Rightarrow> (string \<times> entry) option" where
  "issue_of (Caching route kwargs) = Some (route, kwargs)"
| "issue_of e = None"

definition issued :: "replay_effect list \<Rightarrow> (string \<times> entry) list" where
  "issued tr = List.map_filter issue_of tr"

text \<open>
  The order on routes that the sort key induces: fewer slashes first; with as many
  slashes, the smaller string first.
\<close>

definition route_le :: "string \<Rightarrow> string \<Rightarrow> bool" where
  "route_le a b =
     (count_list a (CHR ''/'') < count_list b (CHR ''/'')
      \<or> (count_list a (CHR ''/'') = count_list b (CHR ''/'') \<and> a \<le> b))"

section \<open>Predicates and inputs used in the statements\<close>

text \<open>Whether a registered callback returns when it is called with \<open>(name, plugin)\<close>.\<close>

definition returns :: "('p, 'x) behaviour \<Rightarrow> string \<Rightarrow> 'p \<Rightarrow> nat \<Rightarrow> bool" where
  "returns beh name plugin c = (beh (Registered c) name plugin = Inr ())"

text \<open>
  A plugin manager whose four attributes are upstream callables, a lifecycle manager built
  over it with two subscribers 0 (``A'') and 1 (``B'') on \<^verbatim>\<open>enabled\<close>, and a
  behaviour in which A raises.
\<close>

definition upstream_pm :: "(unit, string) plugin_manager" where
  "upstream_pm = \<lparr>on_plugin = (\<lambda>event. Some (upstream_handler event))\<rparr>"

definition two_subscribers :: lifecycle_manager where
  "two_subscribers =
     add_callback (add_callback (snd (LifecycleManager_init upstream_pm)) (OneEvent ''enabled'') 0)
                  (OneEvent ''enabled'') 1"

definition A_raises :: "(unit, string) behaviour" where
  "A_raises c name plugin = (if c = Registered 0 then Inl ''boom'' else Inr ())"

definition all_return :: "(unit, string) behaviour" where
  "all_return c name plugin = Inr ()"

text \<open>The pattern lies under the prefix \<^verbatim>\<open>/plugin/<name>/\<close>.\<close>

definition in_plugin_namespace :: "string \<Rightarrow> string \<Rightarrow> bool" where
  "in_plugin_namespace name pattern = prefix (''/plugin/'' @ name @ ''/'') pattern"

definition builtin_size_patterns :: "string list" where
  "builtin_size_patterns = [''/api/files/([^/]*)'', ''/api/languages'']"

text \<open>
  A pattern contributed by the plugin \<open>name\<close>: inside its namespace, and none of the
  patterns the source itself lists.
\<close>

definition from_plugin :: "string \<Rightarrow> string \<Rightarrow> bool" where
  "from_plugin name pattern =
     (in_plugin_namespace name pattern
      \<and> pattern \<notin> set default_patterns
      \<and> pattern \<noteq> fallback_pattern
      \<and> pattern \<notin> set builtin_size_patterns)"

definition logged_route :: "route \<Rightarrow> assembly_log" where
  "logged_route r = (case r of (route, handler, kwargs) \<Rightarrow> AddingRoute route handler kwargs)"

text \<open>
  What one hook contributes to the route table, given what its call returned or raised:
  the accepted entries of the result, in order; and the same for the body-size table,
  where an entry that makes the source raise contributes nothing.
\<close>

definition accepted_routes :: "string \<Rightarrow> 'x + pyval \<Rightarrow> route list" where
  "accepted_routes name outcome =
     (case outcome of
        Inl x \<Rightarrow> []
      | Inr result \<Rightarrow>
          (case list_or_tuple result of
             None \<Rightarrow> []
           | Some entries \<Rightarrow> List.map_filter (route_of_entry name) entries))"

definition accepted_size :: "pyval list \<Rightarrow> string \<Rightarrow> pyval \<Rightarrow> body_size option" where
  "accepted_size BODY_METHODS name entry =
     (case size_of_entry BODY_METHODS name entry of Inl e \<Rightarrow> None | Inr r \<Rightarrow> r)"

definition accepted_sizes :: "pyval list \<Rightarrow> string \<Rightarrow> 'x + pyval \<Rightarrow> body_size list" where
  "accepted_sizes BODY_METHODS name outcome =
     (case outcome of
        Inl x \<Rightarrow> []
      | Inr result \<Rightarrow>
          (case list_or_tuple result of
             None \<Rightarrow> []
           | Some entries \<Rightarrow> List.map_filter (accepted_size BODY_METHODS name) entries))"

text \<open>A route hook of the plugin \<^verbatim>\<open>p\<close> that supplies the route \<^verbatim>\<open>x|.*\<close>.\<close>

definition greedy_hook :: "string route_hook" where
  "greedy_hook server_routes = Inr (PList [PTuple [PStr ''x|.*'', PObj 1, PDict []]])"

text \<open>
  Hooks of a plugin \<^verbatim>\<open>p\<close>: a route hook that returns the route \<^verbatim>\<open>x\<close> twice,
  with two handlers, and a body-size hook that returns one override.
\<close>

definition plain_detail :: "string \<Rightarrow> pyval \<times> pyval" where
  "plain_detail pattern = (PObj 0, PDict [])"

definition twice_hook :: "string route_hook" where
  "twice_hook server_routes =
     Inr (PList [PTuple [PStr ''x'', PObj 1, PDict []], PTuple [PStr ''x'', PObj 2, PDict []]])"

definition upload_hook :: "string bodysize_hook" where
  "upload_hook max_body_sizes = Inr (PList [PTuple [PStr ''POST'', PStr ''/upload'', PInt 1024]])"

definition body_methods :: "pyval list" where
  "body_methods = [PStr ''POST'', PStr ''PATCH'', PStr ''PUT'']"

text \<open>
  A server before \<^verbatim>\<open>run\<close> and one that is up (watcher started, run under a daemon);
  a run in which every call into the environment succeeds, and the same run with
  \<^verbatim>\<open>set_close_exec\<close> raising.
\<close>

definition fresh_server :: server where
  "fresh_server =
     \<lparr>host = Some ''0.0.0.0'', port = Some 5000, v6_only = False, intermediary_server = None,
      watched_observer = None, octoprint_daemon = None\<rparr>"

definition running_server :: server where
  "running_server =
     \<lparr>host = Some ''0.0.0.0'', port = Some 5000, v6_only = False, intermediary_server = Some (),
      watched_observer = Some (), octoprint_daemon = Some ()\<rparr>"

definition smooth_run :: environment where
  "smooth_run =
     \<lparr>HAS_V6 = True, win32 = False, settings_host = None, settings_port = None,
      close_exec = CloseExecReturned True, bind = BindOk, initialization = None, listen = None\<rparr>"


text \<open>
  The effects of a run up to the end of initialization when nothing raised, and the
  effects of the handover: \<^verbatim>\<open>_stop_intermediary_server\<close> from its first to its last
  statement, then the full server's \<^verbatim>\<open>listen\<close>.
\<close>

definition claimed :: "environment \<Rightarrow> effect list" where
  "claimed env =
     [LogDebug ''Starting intermediary server on ...'', CreateIntermediary]
     @ fst (try_set_close_exec env)
     @ [ServerBind, ServerActivate, ThreadStart, LogInfo ''Intermediary server started'',
        Initialization]"

definition handover :: "effect list" where
  "handover =
     [LogInfo ''Shutting down intermediary server...'', ServerShutdown, ServerClose,
      LogInfo ''Intermediary server shut down'', Listen]"

text \<open>
  Whether the inner loop issues the request of an entry: it is bound to no plugin, or the
  plugin passes every check.
\<close>

definition will_issue :: "replay_environment \<Rightarrow> entry \<Rightarrow> bool" where
  "will_issue env kwargs =
     (case e_plugin kwargs of
        None \<Rightarrow> True
      | Some plugin_name \<Rightarrow> plugin_name = [] \<or> check_plugin env plugin_name = CachingEnabled)"

text \<open>The order in which the two nested loops reach the entries.\<close>

definition replay_pass :: "cache \<Rightarrow> (string \<times> entry) list" where
  "replay_pass cache_data =
     concat (map (\<lambda>route. map (Pair route) (sorted_entries (lookup_route cache_data route)))
                 (sorted_routes cache_data))"

text \<open>
  Recorded requests, an environment in which every plugin allows caching and no dispatch
  raises, a cache with the routes \<^verbatim>\<open>/a/b\<close> (hit count 50) and \<^verbatim>\<open>/a\<close> (hit
  counts 5 and 7), and a cache with an old entry, a current HTTPS entry and a current
  entry that is not HTTP.
\<close>

definition recorded :: "real \<Rightarrow> string \<Rightarrow> int \<Rightarrow> entry" where
  "recorded t url n =
     \<lparr>e_timestamp = Some t, e_base_url = Some url, e_count = Some n, e_plugin = None, e_rest = []\<rparr>"

definition willing :: replay_environment where
  "willing = \<lparr>check_plugin = (\<lambda>name. CachingEnabled), dispatch_raises = (\<lambda>route kwargs. False)\<rparr>"

definition two_routes :: cache where
  "two_routes =
     [(''/a/b'', [recorded 900000 ''http://localhost:5000/'' 50]),
      (''/a'', [recorded 900000 ''http://localhost:5000/'' 5,
                recorded 900000 ''http://localhost:5000/'' 7])]"

definition mixed_entries :: cache where
  "mixed_entries =
     [(''/'', [recorded 100000 ''http://localhost:5000/'' 1,
               recorded 900000 ''https://octopi.local/'' 2,
               recorded 900000 ''ftp://octopi.local/'' 3])]"

chapter \<open>Properties\<close>

section \<open>Sequencing\<close>

lemma then_run_returned: "then_run (tr, Inr ()) k = (tr @ fst k, snd k)"
  by (simp add: then_run_def)

lemma then_run_raised: "then_run (tr, Inl x) k = (tr, Inl x)"
  by (simp add: then_run_def)

section \<open>Lifecycle dispatch\<close>

lemma call_each_until_raise:
  "call_each beh cs name plugin =
     (map Registered (takeWhile (returns beh name plugin) cs
                      @ take 1 (dropWhile (returns beh name plugin) cs)),
      (case dropWhile (returns beh name plugin) cs of
         [] \<Rightarrow> Inr ()
       | c # rest \<Rightarrow> beh (Registered c) name plugin))"
proof (induction cs)
  case Nil
  then show ?case by (simp add: done_run_def)
next
  case (Cons c cs)
  show ?case
  proof (cases "beh (Registered c) name plugin")
    case (Inl x)
    then show ?thesis by (simp add: returns_def call_def then_run_def)
  next
    case (Inr u)
    then show ?thesis using Cons by (simp add: returns_def call_def then_run_def)
  qed
qed

text \<open>
  C1 (as the code has it). A dispatch calls the callbacks of the event in registration
  order up to and including the first one that raises. That exception is the outcome of
  the dispatch: it reaches the caller, nothing is caught or logged, and the callbacks
  registered after the raising one are not called. When no callback raises, all are called,
  in registration order, and the dispatch returns.
\<close>

theorem on_plugin_event_stops_at_first_raise:
  "on_plugin_event beh self event name plugin =
     (map Registered
        (takeWhile (returns beh name plugin) (plugin_lifecycle_callbacks self event)
         @ take 1 (dropWhile (returns beh name plugin) (plugin_lifecycle_callbacks self event))),
      (case dropWhile (returns beh name plugin) (plugin_lifecycle_callbacks self event) of
         [] \<Rightarrow> Inr ()
       | c # rest \<Rightarrow> beh (Registered c) name plugin))"
  unfolding on_plugin_event_def by (rule call_each_until_raise)

text \<open>
  C1, the claim as stated, fails: with subscribers A and B on \<^verbatim>\<open>enabled\<close>, A raising,
  the dispatch enters A only and the exception leaves \<^verbatim>\<open>on_plugin_event\<close>.
\<close>

theorem on_plugin_event_error_propagates:
  "on_plugin_event A_raises two_subscribers ''enabled'' ''pluginX'' () = ([Registered 0], Inl ''boom'')"
  by (simp add: on_plugin_event_def two_subscribers_def add_callback_def LifecycleManager_init_def
      A_raises_def call_def then_run_def done_run_def)

text \<open>
  The handler that \<^verbatim>\<open>wrap_plugin_event\<close> builds does what the specification asks
  for: the upstream handler first, then the registered callbacks.
\<close>

lemma wrapped_handler_runs_upstream_first:
  "beh (Upstream event) name plugin = Inr () \<Longrightarrow>
   wrap_plugin_event \<lparr>on_plugin = (\<lambda>e. Some (upstream_handler e))\<rparr> event
       (Some (on_plugin_event_factory event)) beh self name plugin
     = (Upstream event # fst (on_plugin_event beh self event name plugin),
        snd (on_plugin_event beh self event name plugin))"
  by (simp add: wrap_plugin_event_def call_if_callable_def upstream_handler_def
      on_plugin_event_factory_def call_def then_run_def Let_def)

lemma LifecycleManager_init_keeps_plugin_manager: "fst (LifecycleManager_init pm) = pm"
  by (simp add: LifecycleManager_init_def)

text \<open>
  C2. The constructor drops the wrapping handlers, so the plugin manager keeps its own
  attributes. When the plugin subsystem signals \<^verbatim>\<open>enabled\<close> after A and B were
  registered, only the upstream handler is entered: the callbacks added through
  \<^verbatim>\<open>add_callback\<close> are not reached.
\<close>

theorem signal_reaches_upstream_handler_only:
  "signal_plugin_event all_return (fst (LifecycleManager_init upstream_pm)) two_subscribers
      ''enabled'' ''pluginX'' ()
     = ([Upstream ''enabled''], Inr ())"
  by (simp add: signal_plugin_event_def LifecycleManager_init_def upstream_pm_def
      call_if_callable_def upstream_handler_def call_def all_return_def)

section \<open>Route table and body-size table\<close>

lemma in_set_map_filter:
  "y \<in> set (List.map_filter f xs) \<longleftrightarrow> (\<exists>x \<in> set xs. f x = Some y)"
  by (induction xs) (auto split: option.splits)

lemma add_route_entries_appends:
  "add_route_entries name entries (server_routes, lg) =
     (server_routes @ List.map_filter (route_of_entry name) entries,
      lg @ map logged_route (List.map_filter (route_of_entry name) entries))"
proof (induction entries arbitrary: server_routes lg)
  case Nil
  then show ?case by simp
next
  case (Cons entry rest)
  show ?case
  proof (cases "route_of_entry name entry")
    case None
    then show ?thesis using Cons by simp
  next
    case (Some r)
    obtain route handler kwargs where r: "r = (route, handler, kwargs)" by (cases r)
    show ?thesis using Some r Cons by (simp add: logged_route_def)
  qed
qed

text \<open>
  C3 (as the code has it). Assembly has no uniqueness check. Every well-formed entry of a
  hook's result is appended, in order, rewritten under the plugin's prefix, and one debug
  line is logged for it; an entry whose pattern is already in the table is appended like
  any other, so both registrations are in the table, the earlier one first. The loop goes
  through all entries.
\<close>

theorem add_route_entries_keeps_every_entry:
  "fst (add_route_entries name entries (server_routes, lg))
     = server_routes @ List.map_filter (route_of_entry name) entries
   \<and> snd (add_route_entries name entries (server_routes, lg))
     = lg @ map logged_route (List.map_filter (route_of_entry name) entries)"
  by (simp add: add_route_entries_appends)

text \<open>
  C3, the claim as stated, fails: a hook that returns the route \<^verbatim>\<open>x\<close> twice gets
  both registrations into the table, and the log holds the two debug lines only.
\<close>

theorem duplicate_route_is_registered_twice:
  "filter (\<lambda>r. fst r = ''/plugin/p/x'') (fst (get_server_handlers [] plain_detail [(''p'', twice_hook)]))
     = [(''/plugin/p/x'', PObj 1, PDict []), (''/plugin/p/x'', PObj 2, PDict [])]
   \<and> snd (get_server_handlers [] plain_detail [(''p'', twice_hook)])
     = [AddingRoute ''/plugin/p/x'' (PObj 1) (PDict []), AddingRoute ''/plugin/p/x'' (PObj 2) (PDict [])]"
  by (simp add: get_server_handlers_def twice_hook_def route_of_entry_def plugin_route_def
      default_patterns_def fallback_pattern_def plain_detail_def)

lemma plugin_route_namespace: "in_plugin_namespace name (plugin_route name route)"
  by (simp add: in_plugin_namespace_def plugin_route_def)

lemma from_plugin_route: "from_plugin name (plugin_route name supplied)"
  unfolding from_plugin_def
  by (simp add: plugin_route_namespace)
     (simp add: plugin_route_def default_patterns_def fallback_pattern_def builtin_size_patterns_def)

lemma route_of_entry_iff:
  "route_of_entry name entry = Some r \<longleftrightarrow>
   (\<exists>supplied handler kwargs. entry = PTuple [PStr supplied, handler, kwargs] \<and> is_dict kwargs
      \<and> r = (plugin_route name supplied, handler, kwargs))"
  unfolding route_of_entry_def
  by (auto split: option.splits if_splits elim!: tuple3.elims str_of.elims)

lemma size_of_entry_iff:
  "size_of_entry BM name entry = Inr (Some s) \<longleftrightarrow>
   (\<exists>meth supplied sz. entry = PTuple [meth, PStr supplied, sz] \<and> meth \<in> set BM \<and> is_int sz
      \<and> s = (meth, plugin_route name supplied, sz))"
  unfolding size_of_entry_def
  by (auto split: option.splits if_splits elim!: tuple3.elims str_of.elims)

lemma accepted_routes_from_plugin:
  "r \<in> set (accepted_routes name outcome) \<Longrightarrow> from_plugin name (fst r)"
  by (auto simp: accepted_routes_def in_set_map_filter route_of_entry_iff from_plugin_route
      split: sum.splits option.splits)

lemma accepted_size_Some:
  "accepted_size BM name entry = Some s \<longleftrightarrow> size_of_entry BM name entry = Inr (Some s)"
  by (simp add: accepted_size_def split: sum.splits)

lemma accepted_sizes_from_plugin:
  "s \<in> set (accepted_sizes BM name outcome) \<Longrightarrow> from_plugin name (fst (snd s))"
  by (auto simp: accepted_sizes_def in_set_map_filter accepted_size_Some size_of_entry_iff
      from_plugin_route split: sum.splits option.splits)

lemma add_plugin_routes_step:
  "fst (add_plugin_routes ((name, hook) # hooks) (server_routes, lg))
     = fst (add_plugin_routes hooks
              (server_routes @ accepted_routes name (hook server_routes),
               snd (case hook server_routes of
                      Inl x \<Rightarrow> (server_routes, lg @ [RouteHookFailed name])
                    | Inr result \<Rightarrow>
                        (case list_or_tuple result of None \<Rightarrow> (server_routes, lg)
                         | Some entries \<Rightarrow> add_route_entries name entries (server_routes, lg)))))"
  by (auto simp: accepted_routes_def add_route_entries_appends split: sum.splits option.splits)

lemma add_plugin_routes_blocks:
  "\<exists>blocks. length blocks = length hooks
      \<and> fst (add_plugin_routes hooks (server_routes, lg)) = server_routes @ concat blocks
      \<and> (\<forall>i < length hooks.
            blocks ! i = accepted_routes (fst (hooks ! i))
                           (snd (hooks ! i) (server_routes @ concat (take i blocks))))"
proof (induction hooks arbitrary: server_routes lg)
  case Nil
  show ?case by simp
next
  case (Cons h hooks)
  obtain name hook where h: "h = (name, hook)" by (cases h)
  define step where "step = accepted_routes name (hook server_routes)"
  obtain lg1 where s: "fst (add_plugin_routes (h # hooks) (server_routes, lg))
          = fst (add_plugin_routes hooks (server_routes @ step, lg1))"
    unfolding h step_def add_plugin_routes_step by blast
  from Cons.IH[of "server_routes @ step" lg1] obtain blocks
    where b: "length blocks = length hooks"
      "fst (add_plugin_routes hooks (server_routes @ step, lg1)) = (server_routes @ step) @ concat blocks"
      "\<forall>i < length hooks.
            blocks ! i = accepted_routes (fst (hooks ! i))
                           (snd (hooks ! i) ((server_routes @ step) @ concat (take i blocks)))"
    by blast
  show ?case
  proof (intro exI[of _ "step # blocks"] conjI allI impI)
    show "length (step # blocks) = length (h # hooks)" using b(1) by simp
    show "fst (add_plugin_routes (h # hooks) (server_routes, lg)) = server_routes @ concat (step # blocks)"
      using s b(2) by simp
    fix i assume i: "i < length (h # hooks)"
    show "(step # blocks) ! i = accepted_routes (fst ((h # hooks) ! i))
             (snd ((h # hooks) ! i) (server_routes @ concat (take i (step # blocks))))"
    proof (cases i)
      case 0
      then show ?thesis by (simp add: h step_def)
    next
      case (Suc j)
      with i have "j < length hooks" by simp
      with b(3) Suc show ?thesis by simp
    qed
  qed
qed

lemma add_size_entries_accepted:
  "add_size_entries BM name entries (sizes, lg) = Inr (sizes', lg') \<Longrightarrow>
   sizes' = sizes @ List.map_filter (accepted_size BM name) entries"
proof (induction entries arbitrary: sizes lg)
  case Nil
  then show ?case by simp
next
  case (Cons entry rest)
  show ?case
  proof (cases "size_of_entry BM name entry")
    case (Inl e)
    then show ?thesis using Cons.prems by simp
  next
    case (Inr r)
    show ?thesis
    proof (cases r)
      case None
      with Inr Cons.prems have "add_size_entries BM name rest (sizes, lg) = Inr (sizes', lg')" by simp
      from Cons.IH[OF this] show ?thesis using Inr None by (simp add: accepted_size_def)
    next
      case (Some s)
      obtain m route sz where s: "s = (m, route, sz)" by (cases s)
      from Inr Some s Cons.prems
      have "add_size_entries BM name rest (sizes @ [s], lg @ [AddingBodySize m route sz]) = Inr (sizes', lg')"
        by simp
      from Cons.IH[OF this] show ?thesis using Inr Some by (simp add: accepted_size_def)
    qed
  qed
qed

lemma add_plugin_sizes_step:
  assumes "add_plugin_sizes BM ((name, hook) # hooks) (sizes, lg) = Inr (sizes', lg')"
  shows "\<exists>lg1. add_plugin_sizes BM hooks (sizes @ accepted_sizes BM name (hook sizes), lg1)
                 = Inr (sizes', lg')"
proof (cases "hook sizes")
  case (Inl x)
  with assms show ?thesis by (auto simp: accepted_sizes_def)
next
  case (Inr result)
  show ?thesis
  proof (cases "list_or_tuple result")
    case None
    with Inr assms show ?thesis by (auto simp: accepted_sizes_def)
  next
    case (Some entries)
    show ?thesis
    proof (cases "add_size_entries BM name entries (sizes, lg)")
      case (Inl e)
      with Inr Some assms show ?thesis by simp
    next
      case acc: (Inr acc)
      obtain sizes1 lg1 where a: "acc = (sizes1, lg1)" by (cases acc)
      from add_size_entries_accepted[of BM name entries sizes lg sizes1 lg1] acc a
      have "sizes1 = sizes @ List.map_filter (accepted_size BM name) entries" by simp
      moreover from Inr Some acc a assms
      have "add_plugin_sizes BM hooks (sizes1, lg1) = Inr (sizes', lg')" by simp
      ultimately show ?thesis using Inr Some by (auto simp: accepted_sizes_def)
    qed
  qed
qed

lemma add_plugin_sizes_blocks:
  "add_plugin_sizes BM hooks (sizes, lg) = Inr (sizes', lg') \<Longrightarrow>
   \<exists>blocks. length blocks = length hooks
      \<and> sizes' = sizes @ concat blocks
      \<and> (\<forall>i < length hooks.
            blocks ! i = accepted_sizes BM (fst (hooks ! i))
                           (snd (hooks ! i) (sizes @ concat (take i blocks))))"
proof (induction hooks arbitrary: sizes lg)
  case Nil
  then show ?case by simp
next
  case (Cons h hooks)
  obtain name hook where h: "h = (name, hook)" by (cases h)
  define step where "step = accepted_sizes BM name (hook sizes)"
  from add_plugin_sizes_step[of BM name hook hooks sizes lg sizes' lg'] Cons.prems h
  obtain lg1 where s: "add_plugin_sizes BM hooks (sizes @ step, lg1) = Inr (sizes', lg')"
    unfolding step_def by blast
  from Cons.IH[OF s] obtain blocks
    where b: "length blocks = length hooks"
      "sizes' = (sizes @ step) @ concat blocks"
      "\<forall>i < length hooks.
            blocks ! i = accepted_sizes BM (fst (hooks ! i))
                           (snd (hooks ! i) ((sizes @ step) @ concat (take i blocks)))"
    by blast
  show ?case
  proof (intro exI[of _ "step # blocks"] conjI allI impI)
    show "length (step # blocks) = length (h # hooks)" using b(1) by simp
    show "sizes' = sizes @ concat (step # blocks)" using b(2) by simp
    fix i assume i: "i < length (h # hooks)"
    show "(step # blocks) ! i = accepted_sizes BM (fst ((h # hooks) ! i))
             (snd ((h # hooks) ! i) (sizes @ concat (take i (step # blocks))))"
    proof (cases i)
      case 0
      then show ?thesis by (simp add: h step_def)
    next
      case (Suc j)
      with i have "j < length hooks" by simp
      with b(3) Suc show ?thesis by simp
    qed
  qed
qed


text \<open>
  C10 (as the code has it). An entry of a routes hook is accepted exactly when it is a
  3-tuple of a string, anything and a dictionary, and it is then added with the pattern
  \<^verbatim>\<open>/plugin/<name>/\<close> followed by the supplied route, one leading slash dropped and
  nothing escaped. An entry of a body-size hook is accepted exactly when it is a 3-tuple of
  a body method, a string and an integer, with the same rewriting. The finished route
  table is the router's urls, the default routes, then for every hook in order exactly the
  accepted entries of what that hook returned for the table built so far, then the
  fallback route; the finished body-size table is built in the same way after the two
  built-in sizes. Every pattern in the block of a plugin starts, as a string, with that
  plugin's prefix and is none of the patterns the source lists itself.
\<close>

theorem plugin_patterns_are_prefixed:
  "(route_of_entry name entry = Some r \<longleftrightarrow>
      (\<exists>supplied handler kwargs.
          entry = PTuple [PStr supplied, handler, kwargs] \<and> is_dict kwargs
          \<and> r = (''/plugin/'' @ name @ ''/''
                    @ (if \<not> prefix ''/'' supplied then supplied else drop 1 supplied),
                  handler, kwargs)))
   \<and> (size_of_entry BODY_METHODS name entry = Inr (Some s) \<longleftrightarrow>
      (\<exists>meth supplied sz.
          entry = PTuple [meth, PStr supplied, sz] \<and> meth \<in> set BODY_METHODS \<and> is_int sz
          \<and> s = (meth,
                  ''/plugin/'' @ name @ ''/''
                    @ (if \<not> prefix ''/'' supplied then supplied else drop 1 supplied),
                  sz)))
   \<and> (\<exists>blocks.
        length blocks = length hooks
        \<and> fst (get_server_handlers router_urls detail hooks)
            = router_urls @ map (\<lambda>p. (p, detail p)) default_patterns @ concat blocks
              @ [(fallback_pattern, detail fallback_pattern)]
        \<and> (\<forall>i < length hooks.
              blocks ! i
                = accepted_routes (fst (hooks ! i))
                    (snd (hooks ! i)
                       (router_urls @ map (\<lambda>p. (p, detail p)) default_patterns
                        @ concat (take i blocks)))
              \<and> (\<forall>r \<in> set (blocks ! i). from_plugin (fst (hooks ! i)) (fst r))))
   \<and> (\<forall>sizes lg. get_max_body_sizes BODY_METHODS uploads_maxSize size_hooks = Inr (sizes, lg) \<longrightarrow>
        (\<exists>blocks.
           length blocks = length size_hooks
           \<and> sizes = builtin_body_sizes uploads_maxSize @ concat blocks
           \<and> (\<forall>i < length size_hooks.
                 blocks ! i
                   = accepted_sizes BODY_METHODS (fst (size_hooks ! i))
                       (snd (size_hooks ! i)
                          (builtin_body_sizes uploads_maxSize @ concat (take i blocks)))
                 \<and> (\<forall>s \<in> set (blocks ! i). from_plugin (fst (size_hooks ! i)) (fst (snd s))))))"
proof (intro conjI allI impI)
  show "route_of_entry name entry = Some r \<longleftrightarrow>
      (\<exists>supplied handler kwargs.
          entry = PTuple [PStr supplied, handler, kwargs] \<and> is_dict kwargs
          \<and> r = (''/plugin/'' @ name @ ''/''
                    @ (if \<not> prefix ''/'' supplied then supplied else drop 1 supplied),
                  handler, kwargs))"
    by (rule route_of_entry_iff[unfolded plugin_route_def])
  show "size_of_entry BODY_METHODS name entry = Inr (Some s) \<longleftrightarrow>
      (\<exists>meth supplied sz.
          entry = PTuple [meth, PStr supplied, sz] \<and> meth \<in> set BODY_METHODS \<and> is_int sz
          \<and> s = (meth,
                  ''/plugin/'' @ name @ ''/''
                    @ (if \<not> prefix ''/'' supplied then supplied else drop 1 supplied),
                  sz))"
    by (rule size_of_entry_iff[unfolded plugin_route_def])
next
  let ?base = "router_urls @ map (\<lambda>p. (p, detail p)) default_patterns"
  from add_plugin_routes_blocks[of hooks ?base "[]"]
  obtain blocks where b: "length blocks = length hooks"
    "fst (add_plugin_routes hooks (?base, [])) = ?base @ concat blocks"
    "\<forall>i < length hooks.
        blocks ! i = accepted_routes (fst (hooks ! i)) (snd (hooks ! i) (?base @ concat (take i blocks)))"
    by blast
  have t: "fst (get_server_handlers router_urls detail hooks)
            = router_urls @ map (\<lambda>p. (p, detail p)) default_patterns @ concat blocks
              @ [(fallback_pattern, detail fallback_pattern)]"
    using b(2) by (simp add: get_server_handlers_def case_prod_unfold)
  have ns: "\<forall>r \<in> set (blocks ! i). from_plugin (fst (hooks ! i)) (fst r)" if "i < length hooks" for i
  proof
    fix r assume "r \<in> set (blocks ! i)"
    moreover from b(3) that
    have "blocks ! i = accepted_routes (fst (hooks ! i)) (snd (hooks ! i) (?base @ concat (take i blocks)))"
      by blast
    ultimately show "from_plugin (fst (hooks ! i)) (fst r)"
      using accepted_routes_from_plugin by metis
  qed
  show "\<exists>blocks.
        length blocks = length hooks
        \<and> fst (get_server_handlers router_urls detail hooks)
            = router_urls @ map (\<lambda>p. (p, detail p)) default_patterns @ concat blocks
              @ [(fallback_pattern, detail fallback_pattern)]
        \<and> (\<forall>i < length hooks.
              blocks ! i
                = accepted_routes (fst (hooks ! i))
                    (snd (hooks ! i)
                       (router_urls @ map (\<lambda>p. (p, detail p)) default_patterns
                        @ concat (take i blocks)))
              \<and> (\<forall>r \<in> set (blocks ! i). from_plugin (fst (hooks ! i)) (fst r)))"
  proof (intro exI[of _ blocks] conjI allI impI)
    show "length blocks = length hooks" by (fact b(1))
    show "fst (get_server_handlers router_urls detail hooks)
            = router_urls @ map (\<lambda>p. (p, detail p)) default_patterns @ concat blocks
              @ [(fallback_pattern, detail fallback_pattern)]" by (fact t)
    fix i assume i: "i < length hooks"
    from b(3) i
    have "blocks ! i = accepted_routes (fst (hooks ! i)) (snd (hooks ! i) (?base @ concat (take i blocks)))"
      by blast
    then show "blocks ! i
                = accepted_routes (fst (hooks ! i))
                    (snd (hooks ! i)
                       (router_urls @ map (\<lambda>p. (p, detail p)) default_patterns
                        @ concat (take i blocks)))"
      by (simp only: append_assoc)
    show "\<forall>r \<in> set (blocks ! i). from_plugin (fst (hooks ! i)) (fst r)" by (rule ns[OF i])
  qed
next
  fix sizes lg
  assume "get_max_body_sizes BODY_METHODS uploads_maxSize size_hooks = Inr (sizes, lg)"
  then have "add_plugin_sizes BODY_METHODS size_hooks (builtin_body_sizes uploads_maxSize, []) = Inr (sizes, lg)"
    by (simp add: get_max_body_sizes_def)
  from add_plugin_sizes_blocks[OF this]
  obtain blocks where b: "length blocks = length size_hooks"
    "sizes = builtin_body_sizes uploads_maxSize @ concat blocks"
    "\<forall>i < length size_hooks.
        blocks ! i = accepted_sizes BODY_METHODS (fst (size_hooks ! i))
                       (snd (size_hooks ! i) (builtin_body_sizes uploads_maxSize @ concat (take i blocks)))"
    by blast
  have ns: "\<forall>s \<in> set (blocks ! i). from_plugin (fst (size_hooks ! i)) (fst (snd s))"
    if "i < length size_hooks" for i
  proof
    fix s assume "s \<in> set (blocks ! i)"
    moreover from b(3) that
    have "blocks ! i = accepted_sizes BODY_METHODS (fst (size_hooks ! i))
                       (snd (size_hooks ! i) (builtin_body_sizes uploads_maxSize @ concat (take i blocks)))"
      by blast
    ultimately show "from_plugin (fst (size_hooks ! i)) (fst (snd s))"
      using accepted_sizes_from_plugin by metis
  qed
  show "\<exists>blocks.
           length blocks = length size_hooks
           \<and> sizes = builtin_body_sizes uploads_maxSize @ concat blocks
           \<and> (\<forall>i < length size_hooks.
                 blocks ! i
                   = accepted_sizes BODY_METHODS (fst (size_hooks ! i))
                       (snd (size_hooks ! i)
                          (builtin_body_sizes uploads_maxSize @ concat (take i blocks)))
                 \<and> (\<forall>s \<in> set (blocks ! i). from_plugin (fst (size_hooks ! i)) (fst (snd s))))"
  proof (intro exI[of _ blocks] conjI allI impI)
    show "length blocks = length size_hooks" by (fact b(1))
    show "sizes = builtin_body_sizes uploads_maxSize @ concat blocks" by (fact b(2))
    fix i assume i: "i < length size_hooks"
    from b(3) i
    show "blocks ! i
                   = accepted_sizes BODY_METHODS (fst (size_hooks ! i))
                       (snd (size_hooks ! i)
                          (builtin_body_sizes uploads_maxSize @ concat (take i blocks)))"
      by blast
    show "\<forall>s \<in> set (blocks ! i). from_plugin (fst (size_hooks ! i)) (fst (snd s))" by (rule ns[OF i])
  qed
qed

text \<open>
  C10 at a concrete input: the plugin \<^verbatim>\<open>p\<close> contributes the route \<^verbatim>\<open>x\<close>
  twice and a body size for \<^verbatim>\<open>/upload\<close>.
\<close>

theorem plugin_patterns_are_prefixed_witness:
  "route_of_entry ''p'' (PTuple [PStr ''/x'', PObj 1, PDict []]) = Some (''/plugin/p/x'', PObj 1, PDict [])
   \<and> size_of_entry body_methods ''p'' (PTuple [PStr ''POST'', PStr ''/upload'', PInt 1024])
       = Inr (Some (PStr ''POST'', ''/plugin/p/upload'', PInt 1024))
   \<and> fst (get_server_handlers [] plain_detail [(''p'', twice_hook)])
       = map (\<lambda>p. (p, plain_detail p)) default_patterns
         @ [(''/plugin/p/x'', PObj 1, PDict []), (''/plugin/p/x'', PObj 2, PDict [])]
         @ [(fallback_pattern, plain_detail fallback_pattern)]
   \<and> get_max_body_sizes body_methods 1 [(''p'', upload_hook)]
       = Inr (builtin_body_sizes 1 @ [(PStr ''POST'', ''/plugin/p/upload'', PInt 1024)],
              [AddingBodySize (PStr ''POST'') ''/plugin/p/upload'' (PInt 1024)])
   \<and> from_plugin ''p'' ''/plugin/p/x''
   \<and> from_plugin ''p'' ''/plugin/p/upload''"
proof -
  note t = plugin_patterns_are_prefixed
      [of "''p''" "PTuple [PStr ''/x'', PObj 1, PDict []]" "(''/plugin/p/x'', PObj 1, PDict [])"
          body_methods "(PStr ''POST'', ''/plugin/p/upload'', PInt 1024)"
          "[(''p'', twice_hook)]" "[]" plain_detail 1 "[(''p'', upload_hook)]"]
  note u = plugin_patterns_are_prefixed
      [of "''p''" "PTuple [PStr ''POST'', PStr ''/upload'', PInt 1024]" _
          body_methods "(PStr ''POST'', ''/plugin/p/upload'', PInt 1024)"]
  have r: "route_of_entry ''p'' (PTuple [PStr ''/x'', PObj 1, PDict []]) = Some (''/plugin/p/x'', PObj 1, PDict [])"
    using t[THEN conjunct1] by simp
  have s: "size_of_entry body_methods ''p'' (PTuple [PStr ''POST'', PStr ''/upload'', PInt 1024])
       = Inr (Some (PStr ''POST'', ''/plugin/p/upload'', PInt 1024))"
    using u[THEN conjunct2, THEN conjunct1] by (simp add: body_methods_def)
  have g: "get_max_body_sizes body_methods 1 [(''p'', upload_hook)]
       = Inr (builtin_body_sizes 1 @ [(PStr ''POST'', ''/plugin/p/upload'', PInt 1024)],
              [AddingBodySize (PStr ''POST'') ''/plugin/p/upload'' (PInt 1024)])"
    by (simp add: get_max_body_sizes_def upload_hook_def size_of_entry_def plugin_route_def body_methods_def)
  from t[THEN conjunct2, THEN conjunct2, THEN conjunct1]
  obtain blocks where b: "length blocks = 1"
    "fst (get_server_handlers [] plain_detail [(''p'', twice_hook)])
       = [] @ map (\<lambda>p. (p, plain_detail p)) default_patterns @ concat blocks
         @ [(fallback_pattern, plain_detail fallback_pattern)]"
    "blocks ! 0 = accepted_routes ''p''
                    (twice_hook ([] @ map (\<lambda>p. (p, plain_detail p)) default_patterns @ concat (take 0 blocks)))"
    "\<forall>r \<in> set (blocks ! 0). from_plugin ''p'' (fst r)"
    by auto
  have b0: "blocks ! 0 = [(''/plugin/p/x'', PObj 1, PDict []), (''/plugin/p/x'', PObj 2, PDict [])]"
    unfolding b(3) by (simp add: accepted_routes_def twice_hook_def route_of_entry_def plugin_route_def)
  from b(1) have "blocks = [blocks ! 0]" by (cases blocks) auto
  with b0 have bl: "concat blocks = [(''/plugin/p/x'', PObj 1, PDict []), (''/plugin/p/x'', PObj 2, PDict [])]"
    by (metis concat.simps(1) concat.simps(2) append_Nil2)
  have table: "fst (get_server_handlers [] plain_detail [(''p'', twice_hook)])
       = map (\<lambda>p. (p, plain_detail p)) default_patterns
         @ [(''/plugin/p/x'', PObj 1, PDict []), (''/plugin/p/x'', PObj 2, PDict [])]
         @ [(fallback_pattern, plain_detail fallback_pattern)]"
    using b(2) unfolding bl by simp
  have f1: "from_plugin ''p'' ''/plugin/p/x''" using b(4) b0 by simp
  from t[THEN conjunct2, THEN conjunct2, THEN conjunct2] g
  obtain sblocks where sb: "length sblocks = 1"
    "builtin_body_sizes 1 @ [(PStr ''POST'', ''/plugin/p/upload'', PInt 1024)]
       = builtin_body_sizes 1 @ concat sblocks"
    "\<forall>s \<in> set (sblocks ! 0). from_plugin ''p'' (fst (snd s))"
    by auto
  from sb(1) have "sblocks = [sblocks ! 0]" by (cases sblocks) auto
  then have "concat sblocks = sblocks ! 0" by (metis concat.simps(1) concat.simps(2) append_Nil2)
  with sb(2) have "sblocks ! 0 = [(PStr ''POST'', ''/plugin/p/upload'', PInt 1024)]" by simp
  with sb(3) have f2: "from_plugin ''p'' ''/plugin/p/upload''" by simp
  from r s table g f1 f2 show ?thesis by (intro conjI)
qed

text \<open>
  C10, the claim as stated, fails: the plugin \<^verbatim>\<open>p\<close> supplies the route
  \<^verbatim>\<open>x|.*\<close>. It is accepted and placed, as \<^verbatim>\<open>/plugin/p/x|.*\<close>, before the
  fallback route. As a regular expression this pattern matches the path
  \<^verbatim>\<open>/api/version\<close>, which lies outside the namespace of \<^verbatim>\<open>p\<close> and which the
  fallback route matches too: the plugin's route takes the request from the built-in one.
  The route \<^verbatim>\<open>x\<close> alone would not match that path.
\<close>

theorem plugin_pattern_matches_outside_namespace:
  "fst (get_server_handlers [] plain_detail [(''p'', greedy_hook)])
     = map (\<lambda>p. (p, plain_detail p)) default_patterns
       @ [(''/plugin/p/x|.*'', PObj 1, PDict []), (fallback_pattern, plain_detail fallback_pattern)]
   \<and> url_matches ''/plugin/p/x|.*'' ''/api/version'' = Some True
   \<and> url_matches ''/plugin/p/x'' ''/api/version'' = Some False
   \<and> url_matches fallback_pattern ''/api/version'' = Some True
   \<and> \<not> in_plugin_namespace ''p'' ''/api/version''"
proof (intro conjI)
  show "fst (get_server_handlers [] plain_detail [(''p'', greedy_hook)])
     = map (\<lambda>p. (p, plain_detail p)) default_patterns
       @ [(''/plugin/p/x|.*'', PObj 1, PDict []), (fallback_pattern, plain_detail fallback_pattern)]"
    by (simp add: get_server_handlers_def greedy_hook_def route_of_entry_def plugin_route_def)
  show "url_matches ''/plugin/p/x|.*'' ''/api/version'' = Some True"
    by (simp add: url_matches_def parse_pattern_def special_def atom_def rx_matches_def)
  show "url_matches ''/plugin/p/x'' ''/api/version'' = Some False"
    by (simp add: url_matches_def parse_pattern_def special_def atom_def rx_matches_def)
  show "url_matches fallback_pattern ''/api/version'' = Some True"
    by (simp add: url_matches_def parse_pattern_def fallback_pattern_def special_def atom_def
        rx_matches_def)
  show "\<not> in_plugin_namespace ''p'' ''/api/version''"
    by (simp add: in_plugin_namespace_def)
qed

section \<open>Shutdown\<close>

lemma on_shutdown_trace:
  "snd (on_shutdown still_busy self) =
     (LogInfo ''Shutting down...''
      # (if watched_observer self \<noteq> None then [ObserverStop, ObserverJoin] else [])
      @ [Fire SHUTDOWN, LogInfo ''Calling on_shutdown on plugins'', CallPlugins ''on_shutdown''])
     @ EventManagerJoin 15
       # (if still_busy
          then [LogWarning ''Event loop was still busy processing after 15.0s, shutting down anyhow'']
          else [])
         @ (if octoprint_daemon self \<noteq> None
            then [LogInfo ''Cleaning up daemon pidfile'', DaemonTerminated]
            else [])
         @ [LogInfo ''Goodbye!'']"
  by (simp add: on_shutdown_def call_shutdown_plugins_def event_timeout_def)

lemma on_shutdown_keeps_server: "fst (on_shutdown still_busy self) = self"
  by (simp add: on_shutdown_def)

lemma on_shutdown_twice_trace:
  "snd (on_shutdown_twice busy1 busy2 self) = snd (on_shutdown busy1 self) @ snd (on_shutdown busy2 self)"
  by (simp add: on_shutdown_twice_def on_shutdown_def)

text \<open>
  C4 (as the code has it). The shutdown handler keeps no record of having run: it assigns
  no attribute. Each invocation fires the shutdown event once and, when a watcher is set,
  stops and joins it once. Invoked twice in sequence it therefore fires the event twice
  and stops and joins the watcher twice.
\<close>

theorem on_shutdown_twice_repeats_everything:
  "fst (on_shutdown_twice busy1 busy2 self) = self
   \<and> count_list (snd (on_shutdown busy1 self)) (Fire SHUTDOWN) = 1
   \<and> count_list (snd (on_shutdown busy1 self)) ObserverStop
        = (if watched_observer self \<noteq> None then 1 else 0)
   \<and> count_list (snd (on_shutdown busy1 self)) ObserverJoin
        = (if watched_observer self \<noteq> None then 1 else 0)
   \<and> count_list (snd (on_shutdown_twice busy1 busy2 self)) (Fire SHUTDOWN) = 2
   \<and> count_list (snd (on_shutdown_twice busy1 busy2 self)) ObserverStop
        = (if watched_observer self \<noteq> None then 2 else 0)
   \<and> count_list (snd (on_shutdown_twice busy1 busy2 self)) ObserverJoin
        = (if watched_observer self \<noteq> None then 2 else 0)"
proof (intro conjI)
  show "fst (on_shutdown_twice busy1 busy2 self) = self"
    by (simp add: on_shutdown_twice_def on_shutdown_def)
  show "count_list (snd (on_shutdown busy1 self)) (Fire SHUTDOWN) = 1"
    unfolding on_shutdown_trace by simp
  show "count_list (snd (on_shutdown busy1 self)) ObserverStop
        = (if watched_observer self \<noteq> None then 1 else 0)"
    unfolding on_shutdown_trace by simp
  show "count_list (snd (on_shutdown busy1 self)) ObserverJoin
        = (if watched_observer self \<noteq> None then 1 else 0)"
    unfolding on_shutdown_trace by simp
  show "count_list (snd (on_shutdown_twice busy1 busy2 self)) (Fire SHUTDOWN) = 2"
    unfolding on_shutdown_twice_trace on_shutdown_trace by simp
  show "count_list (snd (on_shutdown_twice busy1 busy2 self)) ObserverStop
        = (if watched_observer self \<noteq> None then 2 else 0)"
    unfolding on_shutdown_twice_trace on_shutdown_trace by simp
  show "count_list (snd (on_shutdown_twice busy1 busy2 self)) ObserverJoin
        = (if watched_observer self \<noteq> None then 2 else 0)"
    unfolding on_shutdown_twice_trace on_shutdown_trace by simp
qed

text \<open>
  C4, the claim as stated, fails: on a server with a watcher, two invocations stop the
  watcher twice, join it twice and fire the shutdown event twice.
\<close>

theorem shutdown_twice_joins_and_fires_twice:
  "count_list (snd (on_shutdown_twice False False running_server)) ObserverStop = 2
   \<and> count_list (snd (on_shutdown_twice False False running_server)) ObserverJoin = 2
   \<and> count_list (snd (on_shutdown_twice False False running_server)) (Fire SHUTDOWN) = 2"
  by (simp add: on_shutdown_twice_def on_shutdown_def call_shutdown_plugins_def running_server_def)

text \<open>
  C7 (as the code has it). The shutdown handler waits for the event consumers once, after
  it fired the shutdown event, through \<^verbatim>\<open>eventManager.join\<close> with the fixed timeout
  of 15 seconds. When the join reports that consumers are still busy, a warning is logged.
  Either way the handler goes on: it notifies the daemon when one is set and logs its last
  line. The handler does not stop the event loop; that is the work of the SIGTERM handler.
\<close>

theorem on_shutdown_waits_once_with_timeout:
  "count_list (snd (on_shutdown still_busy self)) (EventManagerJoin 15) = 1
   \<and> (\<forall>t. EventManagerJoin t \<in> set (snd (on_shutdown still_busy self)) \<longrightarrow> t = 15)
   \<and> Fire SHUTDOWN \<in> set (takeWhile (\<lambda>e. e \<noteq> EventManagerJoin 15) (snd (on_shutdown still_busy self)))
   \<and> dropWhile (\<lambda>e. e \<noteq> EventManagerJoin 15) (snd (on_shutdown still_busy self))
       = EventManagerJoin 15
         # (if still_busy
            then [LogWarning ''Event loop was still busy processing after 15.0s, shutting down anyhow'']
            else [])
         @ (if octoprint_daemon self \<noteq> None
            then [LogInfo ''Cleaning up daemon pidfile'', DaemonTerminated]
            else [])
         @ [LogInfo ''Goodbye!'']
   \<and> IOLoopStop \<notin> set (snd (on_shutdown still_busy self))"
proof (intro conjI allI impI)
  show "count_list (snd (on_shutdown still_busy self)) (EventManagerJoin 15) = 1"
    unfolding on_shutdown_trace by simp
  show "t = 15" if "EventManagerJoin t \<in> set (snd (on_shutdown still_busy self))" for t
    using that unfolding on_shutdown_trace by (simp split: if_splits)
  show "Fire SHUTDOWN \<in> set (takeWhile (\<lambda>e. e \<noteq> EventManagerJoin 15) (snd (on_shutdown still_busy self)))"
    unfolding on_shutdown_trace by (simp add: takeWhile_append)
  show "dropWhile (\<lambda>e. e \<noteq> EventManagerJoin 15) (snd (on_shutdown still_busy self))
       = EventManagerJoin 15
         # (if still_busy
            then [LogWarning ''Event loop was still busy processing after 15.0s, shutting down anyhow'']
            else [])
         @ (if octoprint_daemon self \<noteq> None
            then [LogInfo ''Cleaning up daemon pidfile'', DaemonTerminated]
            else [])
         @ [LogInfo ''Goodbye!'']"
    unfolding on_shutdown_trace by (simp add: dropWhile_append)
  show "IOLoopStop \<notin> set (snd (on_shutdown still_busy self))"
    unfolding on_shutdown_trace by simp
qed

text \<open>
  C7 at a concrete input: the join reports busy consumers on a server run under a daemon.
\<close>

theorem on_shutdown_waits_once_with_timeout_witness:
  "EventManagerJoin 15 \<in> set (snd (on_shutdown True running_server))
   \<and> dropWhile (\<lambda>e. e \<noteq> EventManagerJoin 15) (snd (on_shutdown True running_server))
       = [EventManagerJoin 15,
          LogWarning ''Event loop was still busy processing after 15.0s, shutting down anyhow'',
          LogInfo ''Cleaning up daemon pidfile'', DaemonTerminated, LogInfo ''Goodbye!'']"
proof -
  note after_wait = on_shutdown_waits_once_with_timeout
      [of True running_server, THEN conjunct2, THEN conjunct2, THEN conjunct2, THEN conjunct1]
  have daemon: "octoprint_daemon running_server = Some ()" by (simp add: running_server_def)
  have waited: "EventManagerJoin 15 \<in> set (snd (on_shutdown True running_server))"
    unfolding on_shutdown_trace by simp
  show ?thesis unfolding after_wait by (simp add: daemon waited)
qed

text \<open>
  C7, the claim as stated, fails: after the timed-out wait the handler logs the warning,
  notifies the daemon and logs its last line; it never stops the event loop.
\<close>

theorem on_shutdown_does_not_stop_event_loop:
  "snd (on_shutdown True running_server)
     = [LogInfo ''Shutting down...'', ObserverStop, ObserverJoin, Fire SHUTDOWN,
        LogInfo ''Calling on_shutdown on plugins'', CallPlugins ''on_shutdown'',
        EventManagerJoin 15,
        LogWarning ''Event loop was still busy processing after 15.0s, shutting down anyhow'',
        LogInfo ''Cleaning up daemon pidfile'', DaemonTerminated, LogInfo ''Goodbye!'']
   \<and> IOLoopStop \<notin> set (snd (on_shutdown True running_server))"
  by (simp add: on_shutdown_def call_shutdown_plugins_def event_timeout_def running_server_def)

section \<open>Intermediary server and port handover\<close>

lemma close_exec_effects:
  "fst (try_set_close_exec env) = [SetCloseExec True] \<or> fst (try_set_close_exec env) = [SetCloseExec False]
   \<or> fst (try_set_close_exec env) = [SetCloseExecRaised,
        LogException ''Error while attempting to set_close_exec on intermediary server socket'']"
  by (simp add: try_set_close_exec_def emit_def split: close_exec_outcome.splits)

lemma close_exec_returns: "snd (try_set_close_exec env) = Inr ()"
  by (simp add: try_set_close_exec_def emit_def split: close_exec_outcome.splits)


lemma run_reaches_listen:
  "Listen \<in> set (fst (snd (Server_run env self))) \<Longrightarrow>
   fst (snd (Server_run env self)) = claimed env @ handover @ [Fire STARTUP]"
  using close_exec_returns[of env]
  by (auto simp: Server_run_def ensure_host_def ensure_port_def start_intermediary_server_def
      then_run_def emit_def raise_run_def
      done_run_def bind_and_activate_def heavy_initialization_def stop_intermediary_server_def
      initialize_and_bind_server_def claimed_def handover_def try_set_close_exec_def
      split: if_splits bind_outcome.splits option.splits close_exec_outcome.splits)

lemma run_trace:
  "fst (snd (Server_run env self)) =
     (if (v6_only self \<or> CHR '':'' \<in> set (ensured_host env self)) \<and> \<not> HAS_V6 env then []
      else [LogDebug ''Starting intermediary server on ...'', CreateIntermediary]
           @ fst (try_set_close_exec env)
           @ (case bind env of
                BindRaised exc \<Rightarrow> [ServerBindRaised, ServerClose]
              | ActivateRaised exc \<Rightarrow> [ServerBind, ServerActivateRaised, ServerClose]
              | BindOk \<Rightarrow>
                  [ServerBind, ServerActivate, ThreadStart, LogInfo ''Intermediary server started'']
                  @ (case initialization env of
                       Some exc \<Rightarrow> []
                     | None \<Rightarrow>
                         [Initialization,
                          LogInfo ''Shutting down intermediary server...'', ServerShutdown,
                          ServerClose, LogInfo ''Intermediary server shut down'']
                         @ (case listen env of
                              Some exc \<Rightarrow> [ListenRaised]
                            | None \<Rightarrow> [Listen, Fire STARTUP]))))"
  using close_exec_returns[of env]
  by (auto simp: Server_run_def ensure_host_def ensure_port_def start_intermediary_server_def
      then_run_def emit_def raise_run_def
      done_run_def bind_and_activate_def heavy_initialization_def stop_intermediary_server_def
      initialize_and_bind_server_def
      split: if_splits bind_outcome.splits option.splits)







lemma port_history_nonempty: "port_history s xs \<noteq> []"
  by (cases xs) auto

lemma port_history_append:
  "port_history s (xs @ ys) = butlast (port_history s xs) @ port_history (last (port_history s xs)) ys"
  by (induction xs arbitrary: s) (auto simp: port_history_nonempty)

lemma close_exec_keeps_port:
  "port_history s (fst (try_set_close_exec env)) = replicate (Suc (length (fst (try_set_close_exec env)))) s"
  using close_exec_effects[of env] by auto

lemma never_two_owners:
  "s \<in> set (port_history {} (fst (snd (Server_run env self)))) \<Longrightarrow> card s \<le> 1"
  unfolding run_trace
  by (auto simp: port_history_append close_exec_keeps_port
      split: if_splits bind_outcome.splits option.splits dest!: in_set_butlastD)

lemma no_owner_before_listen:
  assumes "Listen \<in> set (fst (snd (Server_run env self)))"
  shows "port_owners (takeWhile (\<lambda>e. e \<noteq> Listen) (fst (snd (Server_run env self)))) = {}"
proof -
  have "takeWhile (\<lambda>e. e \<noteq> Listen) (claimed env @ handover @ [Fire STARTUP])
      = claimed env @ butlast handover"
    using close_exec_effects[of env]
    by (auto simp: claimed_def handover_def takeWhile_append)
  moreover have "port_owners (claimed env @ butlast handover) = {}"
    using close_exec_effects[of env]
    by (auto simp: claimed_def handover_def port_owners_def)
  ultimately show ?thesis using run_reaches_listen[OF assms] by simp
qed

lemma no_listen_while_claimed: "Listen \<notin> set (claimed env)"
  using close_exec_effects[of env] by (auto simp: claimed_def)

text \<open>
  C5 (as the code has it). A run that reaches the full server's \<^verbatim>\<open>listen\<close> has done,
  immediately before it and in this order, the whole of
  \<^verbatim>\<open>_stop_intermediary_server\<close>: shut down the intermediary server, closed its socket,
  returned. No \<^verbatim>\<open>listen\<close> comes earlier. In every run, also one that fails on the
  way, the port never has two holders. Between the close and the \<^verbatim>\<open>listen\<close> the
  port has no holder.
\<close>

theorem handover_is_stop_then_bind:
  "(Listen \<in> set (fst (snd (Server_run env self))) \<longrightarrow>
      fst (snd (Server_run env self)) = claimed env @ handover @ [Fire STARTUP]
      \<and> Listen \<notin> set (claimed env)
      \<and> port_owners (takeWhile (\<lambda>e. e \<noteq> Listen) (fst (snd (Server_run env self)))) = {})
   \<and> (\<forall>s \<in> set (port_history {} (fst (snd (Server_run env self)))). card s \<le> 1)"
  using run_reaches_listen[of env self] no_owner_before_listen[of env self]
    never_two_owners[of _ env self] no_listen_while_claimed[of env]
  by blast

text \<open>
  C5 at a concrete input: the run in which nothing fails reaches \<^verbatim>\<open>listen\<close>, and each
  set of holders in its history has at most one element.
\<close>

theorem handover_is_stop_then_bind_witness:
  "Listen \<in> set (fst (snd (Server_run smooth_run fresh_server)))
   \<and> fst (snd (Server_run smooth_run fresh_server)) = claimed smooth_run @ handover @ [Fire STARTUP]
   \<and> list_all (\<lambda>s. card s \<le> 1) (port_history {} (fst (snd (Server_run smooth_run fresh_server))))"
proof -
  note t = handover_is_stop_then_bind [of smooth_run fresh_server]
  have reached: "Listen \<in> set (fst (snd (Server_run smooth_run fresh_server)))"
    unfolding run_trace by (simp add: smooth_run_def fresh_server_def ensured_host_def)
  from t reached
  have shape: "fst (snd (Server_run smooth_run fresh_server)) = claimed smooth_run @ handover @ [Fire STARTUP]"
    by blast
  from t have "\<forall>s \<in> set (port_history {} (fst (snd (Server_run smooth_run fresh_server)))). card s \<le> 1"
    by blast
  then have single: "list_all (\<lambda>s. card s \<le> 1) (port_history {} (fst (snd (Server_run smooth_run fresh_server))))"
    by (simp only: list_all_iff)
  from reached shape single show ?thesis by (intro conjI)
qed

text \<open>
  C5, the claim as stated, fails: in the run in which nothing fails, the intermediary
  server holds the port until it is stopped, and when \<^verbatim>\<open>_stop_intermediary_server\<close>
  has returned and the full server has not yet bound, nobody holds the port.
\<close>

theorem port_has_no_owner_between_stop_and_bind:
  "fst (snd (Server_run smooth_run fresh_server))
     = [LogDebug ''Starting intermediary server on ...'', CreateIntermediary, SetCloseExec True,
        ServerBind, ServerActivate, ThreadStart, LogInfo ''Intermediary server started'',
        Initialization,
        LogInfo ''Shutting down intermediary server...'', ServerShutdown, ServerClose,
        LogInfo ''Intermediary server shut down'',
        Listen, Fire STARTUP]
   \<and> port_owners (takeWhile (\<lambda>e. e \<noteq> ServerShutdown) (fst (snd (Server_run smooth_run fresh_server))))
       = {IntermediaryServer}
   \<and> port_owners (takeWhile (\<lambda>e. e \<noteq> Listen) (fst (snd (Server_run smooth_run fresh_server)))) = {}"
  unfolding run_trace
  by (simp add: smooth_run_def fresh_server_def ensured_host_def try_set_close_exec_def emit_def
      port_owners_def)

section \<open>Preemptive cache replay\<close>

lemma visits_append: "visits (xs @ ys) = visits xs @ visits ys"
  by (simp add: visits_def List.map_filter_def)

lemma visits_concat: "visits (concat xss) = concat (map visits xss)"
  by (induction xss) (simp_all add: visits_append, simp add: visits_def)

lemma issued_append: "issued (xs @ ys) = issued xs @ issued ys"
  by (simp add: issued_def List.map_filter_def)

lemma issued_concat: "issued (concat xss) = concat (map issued xss)"
  by (induction xss) (simp_all add: issued_append, simp add: issued_def)

lemma visits_replay_entry: "visits (replay_entry env route kwargs) = [(route, kwargs)]"
  by (simp add: replay_entry_def issue_request_def visits_def
      split: option.splits plugin_check.splits)

lemma issued_replay_entry:
  "issued (replay_entry env route kwargs) = (if will_issue env kwargs then [(route, kwargs)] else [])"
  by (simp add: replay_entry_def issue_request_def issued_def will_issue_def
      split: option.splits plugin_check.splits)

lemma visits_execute_caching: "visits (execute_caching env cache_data) = replay_pass cache_data"
proof -
  have "visits (concat (map (replay_entry env route) es)) = map (Pair route) es" for route es
    by (induction es) (simp_all add: visits_append visits_replay_entry, simp add: visits_def)
  then show ?thesis
    by (simp add: execute_caching_def replay_pass_def visits_concat comp_def)
qed

lemma issued_execute_caching:
  "issued (execute_caching env cache_data) = filter (\<lambda>v. will_issue env (snd v)) (replay_pass cache_data)"
proof -
  have "issued (concat (map (replay_entry env route) es))
          = filter (\<lambda>v. will_issue env (snd v)) (map (Pair route) es)" for route es
    by (induction es) (simp_all add: issued_append issued_replay_entry, simp add: issued_def)
  then show ?thesis
    by (simp add: execute_caching_def replay_pass_def issued_concat comp_def filter_concat)
qed


lemma route_key_le: "route_key a \<le> route_key b \<longleftrightarrow> route_le a b"
  by (auto simp: route_key_def route_le_def less_eq_prod_def)

lemma route_le_refl: "route_le a a"
  by (simp add: route_le_def)

lemma sorted_routes_sorted: "sorted_wrt route_le (sorted_routes cache_data)"
proof -
  have "sorted (map route_key (sort_key route_key (map fst cache_data)))" by (rule sorted_sort_key)
  then show ?thesis by (simp add: sorted_routes_def sorted_map route_key_le)
qed

lemma set_sorted_routes: "set (sorted_routes cache_data) = fst ` set cache_data"
  by (simp add: sorted_routes_def)

lemma distinct_sorted_routes: "distinct (sorted_routes cache_data) = distinct (map fst cache_data)"
  by (simp add: sorted_routes_def)

lemma set_sorted_entries: "set (sorted_entries es) = set es"
  by (simp add: sorted_entries_def)

lemma sorted_entries_descending: "sorted_wrt (\<ge>) (map hit_count (sorted_entries es))"
proof -
  have "sorted (map hit_count (sort_key hit_count (rev es)))" by (rule sorted_sort_key)
  then have "sorted_wrt (\<le>) (rev (map hit_count (sorted_entries es)))"
    by (simp add: sorted_entries_def rev_map)
  then show ?thesis by (simp add: sorted_wrt_rev)
qed

lemma blocks_sorted:
  "sorted_wrt R rs \<Longrightarrow> (\<And>r. R r r) \<Longrightarrow>
   sorted_wrt R (map fst (concat (map (\<lambda>r. map (Pair r) (es r)) rs)))"
proof (induction rs)
  case Nil
  then show ?case by simp
next
  case (Cons r rs)
  have head: "sorted_wrt R (map fst (map (Pair r) (es r)))"
    using Cons.prems(2) by (simp add: comp_def sorted_wrt_iff_nth_less)
  have rest: "sorted_wrt R (map fst (concat (map (\<lambda>r. map (Pair r) (es r)) rs)))"
    using Cons by simp
  have cross: "R x y" if "x \<in> set (map fst (map (Pair r) (es r)))"
      "y \<in> set (map fst (concat (map (\<lambda>r. map (Pair r) (es r)) rs)))" for x y
  proof -
    from that(1) have "x = r" by auto
    moreover from that(2) have "y \<in> set rs" by auto
    ultimately show ?thesis using Cons.prems(1) by simp
  qed
  show ?case using head rest cross by (simp add: sorted_wrt_append)
qed

lemma replay_pass_routes_sorted: "sorted_wrt route_le (map fst (replay_pass cache_data))"
  unfolding replay_pass_def
  by (rule blocks_sorted[OF sorted_routes_sorted route_le_refl])

lemma block_of_route:
  "distinct rs \<Longrightarrow>
   filter (\<lambda>v. fst v = route) (concat (map (\<lambda>r. map (Pair r) (es r)) rs))
     = (if route \<in> set rs then map (Pair route) (es route) else [])"
proof (induction rs)
  case Nil
  then show ?case by simp
next
  case (Cons r rs)
  have own: "filter (\<lambda>v. fst v = route) (map (Pair r) (es r))
               = (if r = route then map (Pair r) (es r) else [])"
    by (induction "es r") (auto simp: filter_map comp_def)
  show ?case using Cons own by auto
qed

lemma replay_pass_of_route:
  "distinct (map fst cache_data) \<Longrightarrow>
   filter (\<lambda>v. fst v = route) (replay_pass cache_data)
     = (if route \<in> fst ` set cache_data
        then map (Pair route) (sorted_entries (lookup_route cache_data route)) else [])"
  unfolding replay_pass_def
  using block_of_route[of "sorted_routes cache_data" route
      "\<lambda>r. sorted_entries (lookup_route cache_data r)"]
  by (simp add: distinct_sorted_routes set_sorted_routes)

lemma replay_pass_counts_descending:
  "distinct (map fst cache_data) \<Longrightarrow>
   sorted_wrt (\<ge>) (map (\<lambda>v. hit_count (snd v)) (filter (\<lambda>v. fst v = route) (replay_pass cache_data)))"
  using sorted_entries_descending[of "lookup_route cache_data route"]
  by (simp add: replay_pass_of_route comp_def)

text \<open>
  C9. The loop goes through the routes ordered by their number of slashes and, for as
  many slashes, by the route string; all entries of a route come together. Within a route
  the entries come with non-increasing hit count (a missing count is 0). This holds for
  the entries the loop reaches and for those whose request it issues. Depth is the number
  of \<^verbatim>\<open>/\<close> in the route, as the sort key of the source counts it. The cache is a
  dictionary, so its routes are distinct.
\<close>

theorem replay_order:
  assumes "distinct (map fst cache_data)"
  shows "sorted_wrt route_le (map fst (visits (execute_caching env cache_data)))
   \<and> sorted_wrt route_le (map fst (issued (execute_caching env cache_data)))
   \<and> (\<forall>route. sorted_wrt (\<ge>) (map (\<lambda>v. hit_count (snd v))
         (filter (\<lambda>v. fst v = route) (visits (execute_caching env cache_data)))))
   \<and> (\<forall>route. sorted_wrt (\<ge>) (map (\<lambda>v. hit_count (snd v))
         (filter (\<lambda>v. fst v = route) (issued (execute_caching env cache_data)))))"
proof (intro conjI allI)
  show "sorted_wrt route_le (map fst (visits (execute_caching env cache_data)))"
    by (simp only: visits_execute_caching replay_pass_routes_sorted)
  have "sorted_wrt (\<lambda>x y. route_le (fst x) (fst y)) (replay_pass cache_data)"
    using replay_pass_routes_sorted[of cache_data] by (simp add: sorted_wrt_map)
  then have "sorted_wrt (\<lambda>x y. route_le (fst x) (fst y))
               (filter (\<lambda>v. will_issue env (snd v)) (replay_pass cache_data))"
    by (rule sorted_wrt_filter)
  then show "sorted_wrt route_le (map fst (issued (execute_caching env cache_data)))"
    by (simp add: issued_execute_caching sorted_wrt_map)
  fix route
  show "sorted_wrt (\<ge>) (map (\<lambda>v. hit_count (snd v))
         (filter (\<lambda>v. fst v = route) (visits (execute_caching env cache_data))))"
    by (simp only: visits_execute_caching replay_pass_counts_descending[OF assms])
  have "sorted_wrt (\<lambda>x y. hit_count (snd x) \<ge> hit_count (snd y))
          (filter (\<lambda>v. fst v = route) (replay_pass cache_data))"
    using replay_pass_counts_descending[OF assms, of route] by (simp add: sorted_wrt_map)
  then have "sorted_wrt (\<lambda>x y. hit_count (snd x) \<ge> hit_count (snd y))
          (filter (\<lambda>v. will_issue env (snd v)) (filter (\<lambda>v. fst v = route) (replay_pass cache_data)))"
    by (rule sorted_wrt_filter)
  then show "sorted_wrt (\<ge>) (map (\<lambda>v. hit_count (snd v))
         (filter (\<lambda>v. fst v = route) (issued (execute_caching env cache_data))))"
    by (simp add: issued_execute_caching sorted_wrt_map conj_commute)
qed


lemma filter_entries_iff:
  "filter_entries cutoff e \<longleftrightarrow>
     (\<exists>t. e_timestamp e = Some t \<and> t > cutoff)
     \<and> (\<exists>u. e_base_url e = Some u \<and> (prefix ''http://'' u \<or> prefix ''https://'' u))"
  by (auto simp: filter_entries_def filter_current_entries_def filter_http_entries_def
      split: option.splits)

lemma set_replay_pass:
  "set (replay_pass cache_data)
     = {(r, e). r \<in> fst ` set cache_data \<and> e \<in> set (lookup_route cache_data r)}"
  by (auto simp: replay_pass_def set_sorted_routes set_sorted_entries)

lemma lookup_route_member:
  "distinct (map fst cache_data) \<Longrightarrow>
   (r \<in> fst ` set cache_data \<and> e \<in> set (lookup_route cache_data r))
     \<longleftrightarrow> (\<exists>es. (r, es) \<in> set cache_data \<and> e \<in> set es)"
  by (auto simp: lookup_route_def split: option.splits dest: map_of_SomeD)
     (force simp: image_iff)+

lemma clean_all_data_keys: "map fst (clean_all_data cleanup all_data) = map fst all_data"
  by (simp add: clean_all_data_def comp_def case_prod_unfold)

lemma clean_all_data_member:
  "(r, es') \<in> set (clean_all_data cleanup all_data)
     \<longleftrightarrow> (\<exists>es. (r, es) \<in> set all_data \<and> es' = cleanup r es)"
  by (force simp: clean_all_data_def image_iff)

lemma execute_caching_empty: "execute_caching env [] = []"
  by (simp add: execute_caching_def sorted_routes_def)

lemma pipeline_visits:
  "visits (execute_preemptive_flask_caching now until env all_data)
     = replay_pass (clean_all_data
         (\<lambda>root entries. filter (filter_entries (cutoff_timestamp now until)) entries) all_data)"
  by (simp add: execute_preemptive_flask_caching_def Let_def visits_execute_caching)
     (simp add: replay_pass_def sorted_routes_def visits_def)

lemma pipeline_issued:
  "issued (execute_preemptive_flask_caching now until env all_data)
     = filter (\<lambda>v. will_issue env (snd v)) (replay_pass (clean_all_data
         (\<lambda>root entries. filter (filter_entries (cutoff_timestamp now until)) entries) all_data))"
  by (simp add: execute_preemptive_flask_caching_def Let_def issued_execute_caching)
     (simp add: replay_pass_def sorted_routes_def issued_def)

lemma cleaned_member:
  assumes "distinct (map fst all_data)"
  shows "(route, e) \<in> set (replay_pass (clean_all_data
            (\<lambda>root entries. filter (filter_entries cutoff) entries) all_data))
         \<longleftrightarrow> (\<exists>es. (route, es) \<in> set all_data \<and> e \<in> set es) \<and> filter_entries cutoff e"
proof -
  let ?clean = "clean_all_data (\<lambda>root entries. filter (filter_entries cutoff) entries) all_data"
  have d: "distinct (map fst ?clean)" using assms by (simp add: clean_all_data_keys)
  have "(route, e) \<in> set (replay_pass ?clean) \<longleftrightarrow> (\<exists>es'. (route, es') \<in> set ?clean \<and> e \<in> set es')"
    using lookup_route_member[OF d, of route e] by (simp add: set_replay_pass)
  also have "\<dots> \<longleftrightarrow> (\<exists>es. (route, es) \<in> set all_data \<and> e \<in> set es) \<and> filter_entries cutoff e"
    by (auto simp: clean_all_data_member)
  finally show ?thesis .
qed

text \<open>
  C8. An entry of a route is reached by the replay loop exactly when it is recorded for
  that route, carries a timestamp strictly greater than now minus the retention window
  (\<open>until\<close> days, in seconds) and carries a base URL that starts with
  \<^verbatim>\<open>http://\<close> or \<^verbatim>\<open>https://\<close>. Every request issued belongs to an entry the
  loop reached, so nothing else is replayed. The recorded data is a dictionary, so its
  routes are distinct.
\<close>

theorem replay_pass_is_filtered:
  assumes "distinct (map fst all_data)"
  shows "((route, e) \<in> set (visits (execute_preemptive_flask_caching now until env all_data))
          \<longleftrightarrow> (\<exists>es. (route, es) \<in> set all_data \<and> e \<in> set es)
              \<and> (\<exists>t. e_timestamp e = Some t \<and> t > now - real_of_int (until * 24 * 60 * 60))
              \<and> (\<exists>u. e_base_url e = Some u \<and> (prefix ''http://'' u \<or> prefix ''https://'' u)))
       \<and> set (issued (execute_preemptive_flask_caching now until env all_data))
          \<subseteq> set (visits (execute_preemptive_flask_caching now until env all_data))"
proof (intro conjI)
  show "(route, e) \<in> set (visits (execute_preemptive_flask_caching now until env all_data))
          \<longleftrightarrow> (\<exists>es. (route, es) \<in> set all_data \<and> e \<in> set es)
              \<and> (\<exists>t. e_timestamp e = Some t \<and> t > now - real_of_int (until * 24 * 60 * 60))
              \<and> (\<exists>u. e_base_url e = Some u \<and> (prefix ''http://'' u \<or> prefix ''https://'' u))"
    unfolding pipeline_visits cleaned_member[OF assms] filter_entries_iff cutoff_timestamp_def
    by (rule refl)
  show "set (issued (execute_preemptive_flask_caching now until env all_data))
          \<subseteq> set (visits (execute_preemptive_flask_caching now until env all_data))"
    unfolding pipeline_visits pipeline_issued by auto
qed


lemma sorted_two_routes: "sorted_routes two_routes = [''/a'', ''/a/b'']"
  by (simp add: sorted_routes_def two_routes_def route_key_def less_eq_prod_def)

lemma pass_two_routes:
  "replay_pass two_routes
     = [(''/a'', recorded 900000 ''http://localhost:5000/'' 7),
        (''/a'', recorded 900000 ''http://localhost:5000/'' 5),
        (''/a/b'', recorded 900000 ''http://localhost:5000/'' 50)]"
  unfolding replay_pass_def sorted_two_routes
  by (simp add: two_routes_def lookup_route_def sorted_entries_def hit_count_def recorded_def)

text \<open>
  C9 at a concrete input: \<^verbatim>\<open>/a\<close> (hit counts 5 and 7) is replayed before
  \<^verbatim>\<open>/a/b\<close> (hit count 50), and within \<^verbatim>\<open>/a\<close> the entry with 7 hits comes first.
\<close>

theorem replay_order_witness:
  "distinct (map fst two_routes)
   \<and> issued (execute_caching willing two_routes)
        = [(''/a'', recorded 900000 ''http://localhost:5000/'' 7),
           (''/a'', recorded 900000 ''http://localhost:5000/'' 5),
           (''/a/b'', recorded 900000 ''http://localhost:5000/'' 50)]
   \<and> sorted_wrt route_le (map fst (issued (execute_caching willing two_routes)))
   \<and> sorted_wrt (\<ge>) (map (\<lambda>v. hit_count (snd v))
         (filter (\<lambda>v. fst v = ''/a'') (issued (execute_caching willing two_routes))))"
proof -
  have d: "distinct (map fst two_routes)" by (simp add: two_routes_def)
  have i: "issued (execute_caching willing two_routes)
        = [(''/a'', recorded 900000 ''http://localhost:5000/'' 7),
           (''/a'', recorded 900000 ''http://localhost:5000/'' 5),
           (''/a/b'', recorded 900000 ''http://localhost:5000/'' 50)]"
    unfolding issued_execute_caching pass_two_routes
    by (simp add: will_issue_def recorded_def)
  from replay_order[OF d, of willing] d i show ?thesis by blast
qed

lemma pass_mixed:
  "replay_pass (clean_all_data
         (\<lambda>root entries. filter (filter_entries (cutoff_timestamp 1000000 7)) entries) mixed_entries)
     = [(''/'', recorded 900000 ''https://octopi.local/'' 2)]"
  by (simp add: replay_pass_def sorted_routes_def clean_all_data_def mixed_entries_def
      lookup_route_def sorted_entries_def filter_entries_def filter_current_entries_def
      filter_http_entries_def cutoff_timestamp_def recorded_def)

text \<open>
  C8 at a concrete input: with a window of 7 days, of an old HTTP entry, a current HTTPS
  entry and a current FTP entry only the second is reached.
\<close>

theorem replay_pass_is_filtered_witness:
  "distinct (map fst mixed_entries)
   \<and> visits (execute_preemptive_flask_caching 1000000 7 willing mixed_entries)
       = [(''/'', recorded 900000 ''https://octopi.local/'' 2)]
   \<and> (\<exists>es. (''/'', es) \<in> set mixed_entries \<and> recorded 900000 ''https://octopi.local/'' 2 \<in> set es)
   \<and> (\<exists>t. e_timestamp (recorded 900000 ''https://octopi.local/'' 2) = Some t
          \<and> t > 1000000 - real_of_int (7 * 24 * 60 * 60))
   \<and> (\<exists>u. e_base_url (recorded 900000 ''https://octopi.local/'' 2) = Some u
          \<and> (prefix ''http://'' u \<or> prefix ''https://'' u))"
proof -
  have d: "distinct (map fst mixed_entries)" by (simp add: mixed_entries_def)
  have v: "visits (execute_preemptive_flask_caching 1000000 7 willing mixed_entries)
       = [(''/'', recorded 900000 ''https://octopi.local/'' 2)]"
    unfolding pipeline_visits pass_mixed by (rule refl)
  have m: "(''/'', recorded 900000 ''https://octopi.local/'' 2)
      \<in> set (visits (execute_preemptive_flask_caching 1000000 7 willing mixed_entries))"
    unfolding v by simp
  from replay_pass_is_filtered[OF d, of "''/''" "recorded 900000 ''https://octopi.local/'' 2"
      1000000 7 willing, THEN conjunct1] m d v
  show ?thesis by blast
qed

end
